theory Spec2Isabelle
  imports Main "HOL-Library.Multiset"
begin

section \<open>Data model\<close>

text \<open>
  The records of the Convex tables that \<open>convex/contacts.js\<close>, the balance queries that
  follow it in the same file and \<open>convex/users.js\<close> read. Document ids are strings.
  A field that the queries never read is left out, except where a query copies the whole
  document into its result.

  Amounts are JavaScript numbers, that is doubles. The model has them as integers (an
  amount in the smallest currency unit), in two layers. The queries of the following
  sections add and subtract exactly: that is the source as long as no sum leaves the
  range below \<open>2 ^ 53\<close>, in which a double holds every integer. The section on double
  precision repeats the passes that accumulate amounts with every addition and
  subtraction rounded as the runtime rounds it, for integer amounts of any size; the two
  layers are proved equal where the absolute amounts sum to less than \<open>2 ^ 53\<close>.
  Fractional amounts are outside the model.
\<close>

type_synonym id = string

record split =
  userId :: id
  amount :: int
  paid :: bool

record expense =
  paidByUserId :: id
  groupId :: "id option"
  date :: int
  splits :: "split list"

record settlement =
  s_paidByUserId :: id
  receivedByUserId :: id
  s_groupId :: "id option"
  s_amount :: int

record user =
  u_id :: id
  name :: string
  email :: string
  imageUrl :: "string option"
  tokenIdentifier :: string

record member =
  m_userId :: id
  role :: string
  joinedAt :: int

record group =
  g_id :: id
  g_name :: string
  description :: string
  createdBy :: id
  members :: "member list"

text \<open>
  The database is the four tables, each in creation order, which is the order in which
  \<open>collect()\<close> returns a table. The query context adds the token of the authenticated
  identity (\<open>None\<close> when \<open>ctx.auth.getUserIdentity()\<close> returns null) and the
  time \<open>new Date()\<close> reads, in milliseconds since the epoch.
\<close>

record db =
  tbl_users :: "user list"
  tbl_groups :: "group list"
  tbl_expenses :: "expense list"
  tbl_settlements :: "settlement list"

record ctx =
  db :: db
  auth :: "string option"
  now :: int

datatype error = NotAuthenticated | UserNotFound

text \<open>\<open>ctx.db.get(id)\<close> on an id of the users table: the document, or null.\<close>

definition db_get :: "db \<Rightarrow> id \<Rightarrow> user option" where
  "db_get d i = find (\<lambda>u. u_id u = i) (tbl_users d)"

text \<open>
  \<open>getCurrentUser\<close> of \<open>convex/users.js\<close>: throws without an identity, and when no
  user carries the identity's token; otherwise the first user with that token.
\<close>

definition getCurrentUser :: "ctx \<Rightarrow> error + user" where
  "getCurrentUser c =
     (case auth c of
        None \<Rightarrow> Inl NotAuthenticated
      | Some tok \<Rightarrow>
          (case find (\<lambda>u. tokenIdentifier u = tok) (tbl_users (db c)) of
             None \<Rightarrow> Inl UserNotFound
           | Some u \<Rightarrow> Inr u))"

section \<open>Array.prototype.sort\<close>

text \<open>
  The queries run on V8. Its \<open>Array.prototype.sort\<close> calls the comparison function,
  reads a result that is not a number (\<open>undefined\<close>, \<open>NaN\<close>) as \<open>0\<close>, and for an
  array shorter than 64 elements does exactly this: it takes the run the array starts
  with (\<open>CountAndMakeRun\<close>: the run is descending when the second element compares below
  the first, and a descending run is reversed), then inserts every later element into
  the sorted prefix by binary search (\<open>BinaryInsertionSort\<close>). The model is this
  procedure at every length. For a consistent comparison function that is the stable
  sort which the language requires of every engine; for an inconsistent one the language
  leaves the order to the engine, and the model is V8's order below 64 elements.
\<close>

type_synonym 'a comparefn = "'a \<Rightarrow> 'a \<Rightarrow> int"

fun extendRun :: "'a comparefn \<Rightarrow> bool \<Rightarrow> 'a \<Rightarrow> 'a list \<Rightarrow> nat" where
  "extendRun cmp isDescending previousElement [] = 0"
| "extendRun cmp isDescending previousElement (currentElement # rest) =
     (let order = cmp currentElement previousElement in
      if (if isDescending then order \<ge> 0 else order < 0) then 0
      else Suc (extendRun cmp isDescending currentElement rest))"

definition countAndMakeRun :: "'a comparefn \<Rightarrow> 'a list \<Rightarrow> 'a list \<times> nat" where
  "countAndMakeRun cmp a =
     (case a of
        elementHigh # elementLow # rest \<Rightarrow>
          (let isDescending = (cmp elementLow elementHigh < 0);
               runLength = 2 + extendRun cmp isDescending elementLow rest
           in (if isDescending then rev (take runLength a) @ drop runLength a else a,
               runLength))
      | _ \<Rightarrow> (a, length a))"

function findPos :: "'a comparefn \<Rightarrow> 'a \<Rightarrow> 'a list \<Rightarrow> nat \<Rightarrow> nat \<Rightarrow> nat" where
  "findPos cmp pivot a left right =
     (if left < right then
        (let mid = left + (right - left) div 2 in
         if cmp pivot (a ! mid) < 0 then findPos cmp pivot a left mid
         else findPos cmp pivot a (mid + 1) right)
      else left)"
  by pat_completeness auto
termination
  by (relation "measure (\<lambda>(cmp, pivot, a, left, right). right - left)") auto

declare findPos.simps [simp del]

fun binaryInsertionSort :: "'a comparefn \<Rightarrow> 'a list \<Rightarrow> 'a list \<Rightarrow> 'a list" where
  "binaryInsertionSort cmp sorted_prefix [] = sorted_prefix"
| "binaryInsertionSort cmp sorted_prefix (pivot # rest) =
     (let left = findPos cmp pivot sorted_prefix 0 (length sorted_prefix) in
      binaryInsertionSort cmp (take left sorted_prefix @ pivot # drop left sorted_prefix) rest)"

definition array_sort :: "'a comparefn \<Rightarrow> 'a list \<Rightarrow> 'a list" where
  "array_sort cmp a =
     (if length a < 2 then a
      else (case countAndMakeRun cmp a of
              (a', runLength) \<Rightarrow>
                binaryInsertionSort cmp (take runLength a') (drop runLength a')))"

section \<open>getUserBalances\<close>

text \<open>
  \<open>balanceByUser\<close> is a plain object keyed by user id. Its keys are Convex ids, never an
  array index and never a property of \<open>Object.prototype\<close>, so \<open>Object.entries\<close> lists
  them in insertion order: an association list that appends a new key.
  \<open>tallyAt k f\<close> is \<open>(balanceByUser[k] ??= { owed: 0, owing: 0 })\<close> followed by the
  update \<open>f\<close> of the entry.
\<close>

record tally =
  owed :: int
  owing :: int

definition zeroTally :: tally where
  "zeroTally = \<lparr>owed = 0, owing = 0\<rparr>"

fun tallyAt :: "id \<Rightarrow> (tally \<Rightarrow> tally) \<Rightarrow> (id \<times> tally) list \<Rightarrow> (id \<times> tally) list" where
  "tallyAt k f [] = [(k, f zeroTally)]"
| "tallyAt k f ((k', t) # m) =
     (if k' = k then (k', f t) # m else (k', t) # tallyAt k f m)"

text \<open>The three variables the handler updates while it reads the expenses and the settlements.\<close>

record ledger =
  youOwe :: int
  youAreOwed :: int
  balanceByUser :: "(id \<times> tally) list"

definition emptyLedger :: ledger where
  "emptyLedger = \<lparr>youOwe = 0, youAreOwed = 0, balanceByUser = []\<rparr>"

text \<open>The filter on the expenses table: 1-to-1 only, the user paid or has a split.\<close>

definition involved :: "id \<Rightarrow> expense \<Rightarrow> bool" where
  "involved me e \<longleftrightarrow> paidByUserId e = me \<or> list_ex (\<lambda>s. userId s = me) (splits e)"

definition oneToOneExpenses :: "db \<Rightarrow> id \<Rightarrow> expense list" where
  "oneToOneExpenses d me =
     filter (\<lambda>e. groupId e = None \<and> involved me e) (tbl_expenses d)"

text \<open>The inner loop over the splits of an expense the user paid.\<close>

definition creditSplit :: "id \<Rightarrow> ledger \<Rightarrow> split \<Rightarrow> ledger" where
  "creditSplit me st s =
     (if userId s = me \<or> paid s then st
      else st\<lparr>youAreOwed := youAreOwed st + amount s,
              balanceByUser :=
                tallyAt (userId s) (\<lambda>t. t\<lparr>owed := owed t + amount s\<rparr>) (balanceByUser st)\<rparr>)"

text \<open>The body of the loop over the expenses.\<close>

definition addExpense :: "id \<Rightarrow> ledger \<Rightarrow> expense \<Rightarrow> ledger" where
  "addExpense me st e =
     (let isPayer = (paidByUserId e = me);
          mySplit = find (\<lambda>s. userId s = me) (splits e)
      in if isPayer then foldl (creditSplit me) st (splits e)
         else (case mySplit of
                 None \<Rightarrow> st
               | Some s \<Rightarrow>
                   if paid s then st
                   else st\<lparr>youOwe := youOwe st + amount s,
                           balanceByUser :=
                             tallyAt (paidByUserId e) (\<lambda>t. t\<lparr>owing := owing t + amount s\<rparr>)
                               (balanceByUser st)\<rparr>))"

text \<open>The filter on the settlements table and the body of the loop over them.\<close>

definition oneToOneSettlements :: "db \<Rightarrow> id \<Rightarrow> settlement list" where
  "oneToOneSettlements d me =
     filter (\<lambda>s. s_groupId s = None \<and> (s_paidByUserId s = me \<or> receivedByUserId s = me))
       (tbl_settlements d)"

definition applySettlement :: "id \<Rightarrow> ledger \<Rightarrow> settlement \<Rightarrow> ledger" where
  "applySettlement me st s =
     (if s_paidByUserId s = me then
        st\<lparr>youOwe := youOwe st - s_amount s,
           balanceByUser :=
             tallyAt (receivedByUserId s) (\<lambda>t. t\<lparr>owing := owing t - s_amount s\<rparr>)
               (balanceByUser st)\<rparr>
      else
        st\<lparr>youAreOwed := youAreOwed st - s_amount s,
           balanceByUser :=
             tallyAt (s_paidByUserId s) (\<lambda>t. t\<lparr>owed := owed t - s_amount s\<rparr>)
               (balanceByUser st)\<rparr>)"

text \<open>The ledger once the expenses and the settlements are read.\<close>

definition finalLedger :: "db \<Rightarrow> id \<Rightarrow> ledger" where
  "finalLedger d me =
     foldl (applySettlement me)
       (foldl (addExpense me) emptyLedger (oneToOneExpenses d me))
       (oneToOneSettlements d me)"

text \<open>
  The entries of the two output lists. \<open>counterpart?.name ?? "Unknown"\<close> names a missing
  user \<open>Unknown\<close>; \<open>counterpart?.imageUrl\<close> is then undefined.
\<close>

record base =
  b_userId :: id
  b_name :: string
  b_imageUrl :: "string option"
  b_amount :: int

definition mkBase :: "db \<Rightarrow> id \<Rightarrow> int \<Rightarrow> base" where
  "mkBase d uid net =
     (let counterpart = db_get d uid in
      \<lparr>b_userId = uid,
       b_name = (case counterpart of None \<Rightarrow> ''Unknown'' | Some u \<Rightarrow> name u),
       b_imageUrl = (case counterpart of None \<Rightarrow> None | Some u \<Rightarrow> imageUrl u),
       b_amount = \<bar>net\<bar>\<rparr>)"

text \<open>
  The loop over \<open>Object.entries(balanceByUser)\<close>; the state is the pair
  \<open>(youOweList, youAreOwedByList)\<close>, and \<open>push\<close> appends.
\<close>

definition net :: "tally \<Rightarrow> int" where
  "net t = owed t - owing t"

definition pushEntry :: "db \<Rightarrow> base list \<times> base list \<Rightarrow> id \<times> tally \<Rightarrow> base list \<times> base list" where
  "pushEntry d acc entry =
     (case acc of (youOweList, youAreOwedByList) \<Rightarrow>
      case entry of (uid, t) \<Rightarrow>
        if net t = 0 then (youOweList, youAreOwedByList)
        else if net t > 0 then (youOweList, youAreOwedByList @ [mkBase d uid (net t)])
        else (youOweList @ [mkBase d uid (net t)], youAreOwedByList))"

definition byAmountDesc :: "base comparefn" where
  "byAmountDesc a b = b_amount b - b_amount a"

record oweDetails =
  youOweList :: "base list"
  youAreOwedByList :: "base list"

record balances =
  res_youOwe :: int
  res_youAreOwed :: int
  totalBalance :: int
  oweDetails :: oweDetails

text \<open>The handler once the current user is known.\<close>

definition userBalances :: "db \<Rightarrow> id \<Rightarrow> balances" where
  "userBalances d me =
     (let st = finalLedger d me;
          built = foldl (pushEntry d) ([], []) (balanceByUser st)
      in \<lparr>res_youOwe = youOwe st,
          res_youAreOwed = youAreOwed st,
          totalBalance = youAreOwed st - youOwe st,
          oweDetails =
            \<lparr>youOweList = array_sort byAmountDesc (fst built),
             youAreOwedByList = array_sort byAmountDesc (snd built)\<rparr>\<rparr>)"

definition getUserBalances :: "ctx \<Rightarrow> error + balances" where
  "getUserBalances c =
     (case getCurrentUser c of
        Inl err \<Rightarrow> Inl err
      | Inr user \<Rightarrow> Inr (userBalances (db c) (u_id user)))"

section \<open>Dates\<close>

text \<open>
  The queries read the clock and build dates with \<open>new Date(year, month, 1)\<close>,
  \<open>getFullYear\<close>, \<open>getMonth\<close> and \<open>getTime\<close>. Convex runs them in UTC, so local
  time is UTC, and these are the functions \<open>DayFromYear\<close>, \<open>YearFromTime\<close>,
  \<open>MonthFromTime\<close> and \<open>MakeDay\<close> of the language definition, on time values in
  milliseconds. \<open>YearFromTime t\<close> is the largest year that starts at or before \<open>t\<close>:
  the mean year length gives it within one year, and the two tests settle it.
\<close>

definition msPerDay :: int where
  "msPerDay = 86400000"

definition Day :: "int \<Rightarrow> int" where
  "Day t = t div msPerDay"

definition DayFromYear :: "int \<Rightarrow> int" where
  "DayFromYear y =
     365 * (y - 1970) + (y - 1969) div 4 - (y - 1901) div 100 + (y - 1601) div 400"

definition InLeapYear :: "int \<Rightarrow> int" where
  "InLeapYear y = (if DayFromYear (y + 1) - DayFromYear y = 366 then 1 else 0)"

definition YearFromTime :: "int \<Rightarrow> int" where
  "YearFromTime t =
     (let y = 1970 + (Day t * 400) div 146097 in
      if Day t < DayFromYear y then y - 1
      else if DayFromYear (y + 1) \<le> Day t then y + 1
      else y)"

definition firstDayOfMonth :: "int \<Rightarrow> int \<Rightarrow> int" where
  "firstDayOfMonth leap m =
     (if m = 0 then 0 else if m = 1 then 31 else if m = 2 then 59 + leap
      else if m = 3 then 90 + leap else if m = 4 then 120 + leap
      else if m = 5 then 151 + leap else if m = 6 then 181 + leap
      else if m = 7 then 212 + leap else if m = 8 then 243 + leap
      else if m = 9 then 273 + leap else if m = 10 then 304 + leap
      else 334 + leap)"

definition MonthFromTime :: "int \<Rightarrow> int" where
  "MonthFromTime t =
     (let y = YearFromTime t;
          dayWithinYear = Day t - DayFromYear y;
          leap = InLeapYear y
      in if dayWithinYear < firstDayOfMonth leap 1 then 0
         else if dayWithinYear < firstDayOfMonth leap 2 then 1
         else if dayWithinYear < firstDayOfMonth leap 3 then 2
         else if dayWithinYear < firstDayOfMonth leap 4 then 3
         else if dayWithinYear < firstDayOfMonth leap 5 then 4
         else if dayWithinYear < firstDayOfMonth leap 6 then 5
         else if dayWithinYear < firstDayOfMonth leap 7 then 6
         else if dayWithinYear < firstDayOfMonth leap 8 then 7
         else if dayWithinYear < firstDayOfMonth leap 9 then 8
         else if dayWithinYear < firstDayOfMonth leap 10 then 9
         else if dayWithinYear < firstDayOfMonth leap 11 then 10
         else 11)"

text \<open>
  \<open>new Date(year, month, 1).getTime()\<close> for a month index from 0 to 11. The constructor
  reads a year from 0 to 99 as a year of the twentieth century.
\<close>

definition firstOfMonth :: "int \<Rightarrow> int \<Rightarrow> int" where
  "firstOfMonth year month =
     (let y = (if 0 \<le> year \<and> year \<le> 99 then 1900 + year else year) in
      (DayFromYear y + firstDayOfMonth (InLeapYear y) month) * msPerDay)"

section \<open>getTotalSpent and getMonthlySpending\<close>

text \<open>
  The index \<open>by_date\<close> with \<open>gte("date", startOfYear)\<close>: the expenses dated at or after
  the start of the year, in the order of the index, by date and then by creation.
\<close>

definition by_date_gte :: "db \<Rightarrow> int \<Rightarrow> expense list" where
  "by_date_gte d startOfYear =
     sort_key date (filter (\<lambda>e. startOfYear \<le> date e) (tbl_expenses d))"

definition userExpensesSince :: "db \<Rightarrow> id \<Rightarrow> int \<Rightarrow> expense list" where
  "userExpensesSince d me startOfYear = filter (involved me) (by_date_gte d startOfYear)"

definition addShare :: "id \<Rightarrow> int \<Rightarrow> expense \<Rightarrow> int" where
  "addShare me totalSpent e =
     (case find (\<lambda>s. userId s = me) (splits e) of
        None \<Rightarrow> totalSpent
      | Some userSplit \<Rightarrow> totalSpent + amount userSplit)"

definition totalSpent :: "db \<Rightarrow> int \<Rightarrow> id \<Rightarrow> int" where
  "totalSpent d time me =
     (let currentYear = YearFromTime time;
          startOfYear = firstOfMonth currentYear 0
      in foldl (addShare me) 0 (userExpensesSince d me startOfYear))"


text \<open>
  \<open>monthlyTotals\<close> is a plain object keyed by a time value; \<open>setKey\<close> is the
  assignment \<open>monthlyTotals[k] = v\<close>, which keeps the place of a key that is there and
  appends a new one. The result is sorted by key afterwards, so the order of the entries
  does not reach the caller.
\<close>

fun setKey :: "int \<Rightarrow> int \<Rightarrow> (int \<times> int) list \<Rightarrow> (int \<times> int) list" where
  "setKey k v [] = [(k, v)]"
| "setKey k v ((k', v') # m) = (if k' = k then (k', v) # m else (k', v') # setKey k v m)"

definition initMonths :: "int \<Rightarrow> (int \<times> int) list" where
  "initMonths currentYear =
     foldl (\<lambda>monthlyTotals i. setKey (firstOfMonth currentYear (int i)) 0 monthlyTotals)
       [] [0..<12]"

definition addToMonth :: "id \<Rightarrow> (int \<times> int) list \<Rightarrow> expense \<Rightarrow> (int \<times> int) list" where
  "addToMonth me monthlyTotals e =
     (let monthStart = firstOfMonth (YearFromTime (date e)) (MonthFromTime (date e)) in
      case find (\<lambda>s. userId s = me) (splits e) of
        None \<Rightarrow> monthlyTotals
      | Some userSplit \<Rightarrow>
          setKey monthStart
            ((case map_of monthlyTotals monthStart of None \<Rightarrow> 0 | Some v \<Rightarrow> v)
               + amount userSplit)
            monthlyTotals)"

record monthEntry =
  month :: int
  total :: int

definition byMonthAsc :: "monthEntry comparefn" where
  "byMonthAsc a b = month a - month b"

definition monthlySpending :: "db \<Rightarrow> int \<Rightarrow> id \<Rightarrow> monthEntry list" where
  "monthlySpending d time me =
     (let currentYear = YearFromTime time;
          startOfYear = firstOfMonth currentYear 0;
          monthlyTotals =
            foldl (addToMonth me) (initMonths currentYear)
              (userExpensesSince d me startOfYear);
          result = map (\<lambda>(k, v). \<lparr>month = k, total = v\<rparr>) monthlyTotals
      in array_sort byMonthAsc result)"

definition getMonthlySpending :: "ctx \<Rightarrow> error + monthEntry list" where
  "getMonthlySpending c =
     (case getCurrentUser c of
        Inl err \<Rightarrow> Inl err
      | Inr user \<Rightarrow> Inr (monthlySpending (db c) (now c) (u_id user)))"

section \<open>getUserGroups\<close>

definition groupSplitStep :: "id \<Rightarrow> int \<Rightarrow> split \<Rightarrow> int" where
  "groupSplitStep me balance s =
     (if userId s \<noteq> me \<and> \<not> paid s then balance + amount s else balance)"

definition groupExpenseStep :: "id \<Rightarrow> int \<Rightarrow> expense \<Rightarrow> int" where
  "groupExpenseStep me balance e =
     (if paidByUserId e = me then foldl (groupSplitStep me) balance (splits e)
      else (case find (\<lambda>s. userId s = me) (splits e) of
              None \<Rightarrow> balance
            | Some userSplit \<Rightarrow>
                if \<not> paid userSplit then balance - amount userSplit else balance))"

definition groupSettlementStep :: "id \<Rightarrow> int \<Rightarrow> settlement \<Rightarrow> int" where
  "groupSettlementStep me balance s =
     (if s_paidByUserId s = me then balance + s_amount s else balance - s_amount s)"

definition groupExpenses :: "db \<Rightarrow> id \<Rightarrow> expense list" where
  "groupExpenses d gid = filter (\<lambda>e. groupId e = Some gid) (tbl_expenses d)"

definition groupSettlements :: "db \<Rightarrow> id \<Rightarrow> id \<Rightarrow> settlement list" where
  "groupSettlements d me gid =
     filter (\<lambda>s. s_groupId s = Some gid \<and> (s_paidByUserId s = me \<or> receivedByUserId s = me))
       (tbl_settlements d)"

definition groupBalance :: "db \<Rightarrow> id \<Rightarrow> id \<Rightarrow> int" where
  "groupBalance d me gid =
     foldl (groupSettlementStep me)
       (foldl (groupExpenseStep me) 0 (groupExpenses d gid))
       (groupSettlements d me gid)"

text \<open>The result spreads the group document and adds \<open>id\<close> and \<open>balance\<close>.\<close>

record enhancedGroup =
  eg_group :: group
  eg_id :: id
  balance :: int

definition isMember :: "id \<Rightarrow> group \<Rightarrow> bool" where
  "isMember me g \<longleftrightarrow> list_ex (\<lambda>m. m_userId m = me) (members g)"

definition userGroups :: "db \<Rightarrow> id \<Rightarrow> enhancedGroup list" where
  "userGroups d me =
     map (\<lambda>g. \<lparr>eg_group = g, eg_id = g_id g, balance = groupBalance d me (g_id g)\<rparr>)
       (filter (isMember me) (tbl_groups d))"


section \<open>getAllContacts\<close>

text \<open>
  \<open>contactIds\<close> is a \<open>Set\<close>, which iterates in insertion order: a list that appends an
  id it does not hold yet.
\<close>

definition addId :: "id \<Rightarrow> id list \<Rightarrow> id list" where
  "addId i contactIds = (if i \<in> set contactIds then contactIds else contactIds @ [i])"

definition collectIds :: "id \<Rightarrow> id list \<Rightarrow> expense \<Rightarrow> id list" where
  "collectIds me contactIds exp =
     foldl (\<lambda>ids s. if userId s \<noteq> me then addId (userId s) ids else ids)
       (if paidByUserId exp \<noteq> me then addId (paidByUserId exp) contactIds else contactIds)
       (splits exp)"

definition personalExpenses :: "db \<Rightarrow> id \<Rightarrow> expense list" where
  "personalExpenses d me =
     (let expensesYouPaid =
            filter (\<lambda>e. paidByUserId e = me \<and> groupId e = None) (tbl_expenses d);
          expensesNotPaidByYou =
            filter (\<lambda>e. paidByUserId e \<noteq> me \<and> list_ex (\<lambda>s. userId s = me) (splits e))
              (filter (\<lambda>e. groupId e = None) (tbl_expenses d))
      in expensesYouPaid @ expensesNotPaidByYou)"

record contactUser =
  cu_id :: id
  cu_name :: string
  cu_email :: string
  cu_imageUrl :: "string option"
  cu_type :: string

record contactGroup =
  cg_id :: id
  cg_name :: string
  cg_description :: string
  memberCount :: nat
  cg_type :: string

record contacts =
  users :: "contactUser list"
  groups :: "contactGroup list"

text \<open>An entry of \<open>contactUsers\<close>: the projection of the user, or null.\<close>

definition fetchContact :: "db \<Rightarrow> id \<Rightarrow> contactUser option" where
  "fetchContact d i =
     (case db_get d i of
        None \<Rightarrow> None
      | Some u \<Rightarrow>
          Some \<lparr>cu_id = u_id u, cu_name = name u, cu_email = email u,
                cu_imageUrl = imageUrl u, cu_type = ''user''\<rparr>)"

text \<open>
  \<open>localeCompare\<close> as the order of the code units, negative, zero or positive. On names
  of lower-case ASCII letters that is the order of the collation the runtime uses.
\<close>

fun localeCompare :: "string \<Rightarrow> string \<Rightarrow> int" where
  "localeCompare [] [] = 0"
| "localeCompare [] (y # ys) = - 1"
| "localeCompare (x # xs) [] = 1"
| "localeCompare (x # xs) (y # ys) =
     (if (of_char x :: nat) < of_char y then - 1
      else if (of_char y :: nat) < of_char x then 1
      else localeCompare xs ys)"

text \<open>
  The comparison function \<open>(a, b) => a?.name.localeCompare(b?.name)\<close>. For a null
  \<open>a\<close> the optional chain yields \<open>undefined\<close>, which the sort reads as \<open>0\<close>. For a
  null \<open>b\<close> the argument is \<open>undefined\<close>, which \<open>localeCompare\<close> turns into the
  string \<open>undefined\<close>.
\<close>

definition compareContacts :: "contactUser option comparefn" where
  "compareContacts a b =
     (case a of
        None \<Rightarrow> 0
      | Some x \<Rightarrow>
          localeCompare (cu_name x) (case b of None \<Rightarrow> ''undefined'' | Some y \<Rightarrow> cu_name y))"

definition compareGroups :: "contactGroup comparefn" where
  "compareGroups a b = localeCompare (cg_name a) (cg_name b)"

definition toContactGroup :: "group \<Rightarrow> contactGroup" where
  "toContactGroup g =
     \<lparr>cg_id = g_id g, cg_name = g_name g, cg_description = description g,
      memberCount = length (members g), cg_type = ''group''\<rparr>"

definition allContacts :: "db \<Rightarrow> id \<Rightarrow> contacts" where
  "allContacts d me =
     (let contactIds = foldl (collectIds me) [] (personalExpenses d me);
          contactUsers = map (fetchContact d) contactIds;
          userGroups = map toContactGroup (filter (isMember me) (tbl_groups d))
      in \<lparr>users = List.map_filter (\<lambda>u. u) (array_sort compareContacts contactUsers),
          groups = array_sort compareGroups userGroups\<rparr>)"

definition getAllContacts :: "ctx \<Rightarrow> error + contacts" where
  "getAllContacts c =
     (case getCurrentUser c of
        Inl err \<Rightarrow> Inl err
      | Inr user \<Rightarrow> Inr (allContacts (db c) (u_id user)))"

section \<open>Double precision\<close>

text \<open>
  The runtime adds and subtracts amounts as doubles. \<open>roundDouble x\<close> is the double
  nearest to the integer \<open>x\<close>, with a tie going to the even significand of 53 bits;
  \<open>width\<close> counts the bits of a positive integer. The sum or difference of two doubles
  with integer values is the rounded exact result (below the overflow at \<open>2 ^ 1024\<close>),
  so \<open>dplus\<close> and \<open>dminus\<close> are the \<open>+\<close> and \<open>-\<close> of the source on amounts that
  are doubles with integer values.
\<close>

function width :: "int \<Rightarrow> nat" where
  "width a = (if a \<le> 0 then 0 else Suc (width (a div 2)))"
  by pat_completeness auto
termination
  by (relation "measure nat") auto

declare width.simps [simp del]

definition roundDouble :: "int \<Rightarrow> int" where
  "roundDouble x =
     (let a = \<bar>x\<bar>; w = width a in
      if w \<le> 53 then x
      else (let q = 2 ^ (w - 53); m = a div q; r = a mod q;
                m' = (if q < 2 * r \<or> (2 * r = q \<and> odd m) then m + 1 else m)
            in sgn x * (m' * q)))"

definition dplus :: "int \<Rightarrow> int \<Rightarrow> int" where
  "dplus x y = roundDouble (x + y)"

definition dminus :: "int \<Rightarrow> int \<Rightarrow> int" where
  "dminus x y = roundDouble (x - y)"

text \<open>
  The passes of \<open>getUserBalances\<close> that accumulate amounts, with every \<open>+=\<close>, \<open>-=\<close>
  and \<open>-\<close> of the source rounded: the same steps as above, in the arithmetic of the
  runtime.
\<close>

definition creditSplit_f64 :: "id \<Rightarrow> ledger \<Rightarrow> split \<Rightarrow> ledger" where
  "creditSplit_f64 me st s =
     (if userId s = me \<or> paid s then st
      else st\<lparr>youAreOwed := dplus (youAreOwed st) (amount s),
              balanceByUser :=
                tallyAt (userId s) (\<lambda>t. t\<lparr>owed := dplus (owed t) (amount s)\<rparr>)
                  (balanceByUser st)\<rparr>)"

definition addExpense_f64 :: "id \<Rightarrow> ledger \<Rightarrow> expense \<Rightarrow> ledger" where
  "addExpense_f64 me st e =
     (let isPayer = (paidByUserId e = me);
          mySplit = find (\<lambda>s. userId s = me) (splits e)
      in if isPayer then foldl (creditSplit_f64 me) st (splits e)
         else (case mySplit of
                 None \<Rightarrow> st
               | Some s \<Rightarrow>
                   if paid s then st
                   else st\<lparr>youOwe := dplus (youOwe st) (amount s),
                           balanceByUser :=
                             tallyAt (paidByUserId e)
                               (\<lambda>t. t\<lparr>owing := dplus (owing t) (amount s)\<rparr>)
                               (balanceByUser st)\<rparr>))"

definition applySettlement_f64 :: "id \<Rightarrow> ledger \<Rightarrow> settlement \<Rightarrow> ledger" where
  "applySettlement_f64 me st s =
     (if s_paidByUserId s = me then
        st\<lparr>youOwe := dminus (youOwe st) (s_amount s),
           balanceByUser :=
             tallyAt (receivedByUserId s) (\<lambda>t. t\<lparr>owing := dminus (owing t) (s_amount s)\<rparr>)
               (balanceByUser st)\<rparr>
      else
        st\<lparr>youAreOwed := dminus (youAreOwed st) (s_amount s),
           balanceByUser :=
             tallyAt (s_paidByUserId s) (\<lambda>t. t\<lparr>owed := dminus (owed t) (s_amount s)\<rparr>)
               (balanceByUser st)\<rparr>)"

definition finalLedger_f64 :: "db \<Rightarrow> id \<Rightarrow> ledger" where
  "finalLedger_f64 d me =
     foldl (applySettlement_f64 me)
       (foldl (addExpense_f64 me) emptyLedger (oneToOneExpenses d me))
       (oneToOneSettlements d me)"

definition net_f64 :: "tally \<Rightarrow> int" where
  "net_f64 t = dminus (owed t) (owing t)"

definition pushEntry_f64 ::
  "db \<Rightarrow> base list \<times> base list \<Rightarrow> id \<times> tally \<Rightarrow> base list \<times> base list" where
  "pushEntry_f64 d acc entry =
     (case acc of (oweAcc, owedByAcc) \<Rightarrow>
      case entry of (uid, t) \<Rightarrow>
        if net_f64 t = 0 then (oweAcc, owedByAcc)
        else if net_f64 t > 0 then (oweAcc, owedByAcc @ [mkBase d uid (net_f64 t)])
        else (oweAcc @ [mkBase d uid (net_f64 t)], owedByAcc))"

definition byAmountDesc_f64 :: "base comparefn" where
  "byAmountDesc_f64 a b = dminus (b_amount b) (b_amount a)"

definition userBalances_f64 :: "db \<Rightarrow> id \<Rightarrow> balances" where
  "userBalances_f64 d me =
     (let st = finalLedger_f64 d me;
          built = foldl (pushEntry_f64 d) ([], []) (balanceByUser st)
      in \<lparr>res_youOwe = youOwe st,
          res_youAreOwed = youAreOwed st,
          totalBalance = dminus (youAreOwed st) (youOwe st),
          oweDetails =
            \<lparr>youOweList = array_sort byAmountDesc_f64 (fst built),
             youAreOwedByList = array_sort byAmountDesc_f64 (snd built)\<rparr>\<rparr>)"

definition getUserBalances_f64 :: "ctx \<Rightarrow> error + balances" where
  "getUserBalances_f64 c =
     (case getCurrentUser c of
        Inl err \<Rightarrow> Inl err
      | Inr user \<Rightarrow> Inr (userBalances_f64 (db c) (u_id user)))"

text \<open>The same for \<open>getTotalSpent\<close> and \<open>getMonthlySpending\<close>.\<close>

definition addShare_f64 :: "id \<Rightarrow> int \<Rightarrow> expense \<Rightarrow> int" where
  "addShare_f64 me spent e =
     (case find (\<lambda>s. userId s = me) (splits e) of
        None \<Rightarrow> spent
      | Some userSplit \<Rightarrow> dplus spent (amount userSplit))"

definition totalSpent_f64 :: "db \<Rightarrow> int \<Rightarrow> id \<Rightarrow> int" where
  "totalSpent_f64 d time me =
     (let currentYear = YearFromTime time;
          startOfYear = firstOfMonth currentYear 0
      in foldl (addShare_f64 me) 0 (userExpensesSince d me startOfYear))"

definition getTotalSpent_f64 :: "ctx \<Rightarrow> error + int" where
  "getTotalSpent_f64 c =
     (case getCurrentUser c of
        Inl err \<Rightarrow> Inl err
      | Inr user \<Rightarrow> Inr (totalSpent_f64 (db c) (now c) (u_id user)))"

definition addToMonth_f64 :: "id \<Rightarrow> (int \<times> int) list \<Rightarrow> expense \<Rightarrow> (int \<times> int) list" where
  "addToMonth_f64 me monthlyTotals e =
     (let monthStart = firstOfMonth (YearFromTime (date e)) (MonthFromTime (date e)) in
      case find (\<lambda>s. userId s = me) (splits e) of
        None \<Rightarrow> monthlyTotals
      | Some userSplit \<Rightarrow>
          setKey monthStart
            (dplus (case map_of monthlyTotals monthStart of None \<Rightarrow> 0 | Some v \<Rightarrow> v)
               (amount userSplit))
            monthlyTotals)"

definition byMonthAsc_f64 :: "monthEntry comparefn" where
  "byMonthAsc_f64 a b = dminus (month a) (month b)"

definition monthlySpending_f64 :: "db \<Rightarrow> int \<Rightarrow> id \<Rightarrow> monthEntry list" where
  "monthlySpending_f64 d time me =
     (let currentYear = YearFromTime time;
          startOfYear = firstOfMonth currentYear 0;
          monthlyTotals =
            foldl (addToMonth_f64 me) (initMonths currentYear)
              (userExpensesSince d me startOfYear);
          result = map (\<lambda>(k, v). \<lparr>month = k, total = v\<rparr>) monthlyTotals
      in array_sort byMonthAsc_f64 result)"

definition getMonthlySpending_f64 :: "ctx \<Rightarrow> error + monthEntry list" where
  "getMonthlySpending_f64 c =
     (case getCurrentUser c of
        Inl err \<Rightarrow> Inl err
      | Inr user \<Rightarrow> Inr (monthlySpending_f64 (db c) (now c) (u_id user)))"

section \<open>Notions used in the statements\<close>

text \<open>
  A new document is the last of its table in creation order: \<open>insertSettlement\<close> is the
  record set with one more settlement and everything else unchanged.
\<close>

definition insertSettlement :: "settlement \<Rightarrow> ctx \<Rightarrow> ctx" where
  "insertSettlement s c = c\<lparr>db := (db c)\<lparr>tbl_settlements := tbl_settlements (db c) @ [s]\<rparr>\<rparr>"

text \<open>
  The link between the running totals and the tallies, and the key of every tally being
  there once: it holds of the empty ledger and every step over the expenses and the settlements keeps it.
\<close>

definition tallySums :: "ledger \<Rightarrow> bool" where
  "tallySums st \<longleftrightarrow>
     youAreOwed st = (\<Sum>p\<leftarrow>balanceByUser st. owed (snd p)) \<and>
     youOwe st = (\<Sum>p\<leftarrow>balanceByUser st. owing (snd p)) \<and>
     distinct (map fst (balanceByUser st))"

text \<open>The entry the handler builds for one counterparty with a non-zero net.\<close>

definition entryOf :: "db \<Rightarrow> id \<times> tally \<Rightarrow> base" where
  "entryOf d p = mkBase d (fst p) (net (snd p))"

text \<open>
  The share of one expense in the balance of a user, in closed form: the unpaid splits of
  the others when the user paid, minus the user's own split (the first split that names
  the user) when it is unpaid and someone else paid. The share of one settlement: its
  amount, added when the user paid it and subtracted otherwise. \<open>position\<close> is the
  balance the ledger stands at.
\<close>

definition unpaidOthers :: "id \<Rightarrow> expense \<Rightarrow> int" where
  "unpaidOthers me e = (\<Sum>s\<leftarrow>filter (\<lambda>s. userId s \<noteq> me \<and> \<not> paid s) (splits e). amount s)"

definition ownUnpaidSplit :: "id \<Rightarrow> expense \<Rightarrow> int" where
  "ownUnpaidSplit me e =
     (case find (\<lambda>s. userId s = me) (splits e) of
        None \<Rightarrow> 0
      | Some s \<Rightarrow> if paid s then 0 else amount s)"

definition expenseShare :: "id \<Rightarrow> expense \<Rightarrow> int" where
  "expenseShare me e =
     (if paidByUserId e = me then unpaidOthers me e else - ownUnpaidSplit me e)"

definition settlementShare :: "id \<Rightarrow> settlement \<Rightarrow> int" where
  "settlementShare me s = (if s_paidByUserId s = me then s_amount s else - s_amount s)"

definition position :: "ledger \<Rightarrow> int" where
  "position st = youAreOwed st - youOwe st"


text \<open>
  The volume of the amounts a query reads: the absolute amounts of the splits of the
  expenses it keeps, and of the settlements it keeps. Below \<open>2 ^ 53\<close> no addition of
  the query rounds. \<open>within B\<close> bounds a ledger, \<open>monthWeight\<close> the month buckets.
\<close>

definition splitVolume :: "expense \<Rightarrow> int" where
  "splitVolume e = (\<Sum>s\<leftarrow>splits e. \<bar>amount s\<bar>)"

definition balanceVolume :: "db \<Rightarrow> id \<Rightarrow> int" where
  "balanceVolume d me =
     (\<Sum>e\<leftarrow>oneToOneExpenses d me. splitVolume e) +
     (\<Sum>s\<leftarrow>oneToOneSettlements d me. \<bar>s_amount s\<bar>)"

definition spendingVolume :: "db \<Rightarrow> int \<Rightarrow> id \<Rightarrow> int" where
  "spendingVolume d time me =
     (\<Sum>e\<leftarrow>userExpensesSince d me (firstOfMonth (YearFromTime time) 0). splitVolume e)"

definition tallyWeight :: "(id \<times> tally) list \<Rightarrow> int" where
  "tallyWeight m = (\<Sum>p\<leftarrow>m. \<bar>owed (snd p)\<bar> + \<bar>owing (snd p)\<bar>)"

definition within :: "int \<Rightarrow> ledger \<Rightarrow> bool" where
  "within B st \<longleftrightarrow>
     \<bar>youOwe st\<bar> + \<bar>youAreOwed st\<bar> \<le> B \<and> tallyWeight (balanceByUser st) \<le> B"

definition monthWeight :: "(int \<times> int) list \<Rightarrow> int" where
  "monthWeight m = (\<Sum>p\<leftarrow>m. \<bar>snd p\<bar>)"

section \<open>Sample records\<close>

text \<open>
  Four users; the id \<open>u9\<close> of a deleted user still stands in a split. Alice is the
  authenticated user, on 2 November 2026. One expense of the group is dated in 2025.
\<close>

definition alice :: user where
  "alice = \<lparr>u_id = ''u1'', name = ''alice'', email = ''alice@example.org'', imageUrl = None,
            tokenIdentifier = ''tok1''\<rparr>"

definition bob :: user where
  "bob = \<lparr>u_id = ''u2'', name = ''bob'', email = ''bob@example.org'',
          imageUrl = Some ''bob.png'', tokenIdentifier = ''tok2''\<rparr>"

definition carol :: user where
  "carol = \<lparr>u_id = ''u3'', name = ''carol'', email = ''carol@example.org'', imageUrl = None,
            tokenIdentifier = ''tok3''\<rparr>"

definition dave :: user where
  "dave = \<lparr>u_id = ''u4'', name = ''dave'', email = ''dave@example.org'', imageUrl = None,
           tokenIdentifier = ''tok4''\<rparr>"

definition lunch :: expense where
  "lunch = \<lparr>paidByUserId = ''u1'', groupId = None, date = 1770000000000,
            splits = [\<lparr>userId = ''u1'', amount = 50, paid = True\<rparr>,
                      \<lparr>userId = ''u2'', amount = 30, paid = False\<rparr>,
                      \<lparr>userId = ''u9'', amount = 20, paid = False\<rparr>]\<rparr>"

definition taxi :: expense where
  "taxi = \<lparr>paidByUserId = ''u2'', groupId = None, date = 1775000000000,
           splits = [\<lparr>userId = ''u1'', amount = 40, paid = False\<rparr>,
                     \<lparr>userId = ''u2'', amount = 40, paid = True\<rparr>]\<rparr>"

definition coffee :: expense where
  "coffee = \<lparr>paidByUserId = ''u1'', groupId = None, date = 1780000000000,
             splits = [\<lparr>userId = ''u3'', amount = 15, paid = False\<rparr>]\<rparr>"

definition dinner :: expense where
  "dinner = \<lparr>paidByUserId = ''u1'', groupId = Some ''g1'', date = 1785000000000,
             splits = [\<lparr>userId = ''u1'', amount = 30, paid = True\<rparr>,
                       \<lparr>userId = ''u2'', amount = 60, paid = False\<rparr>]\<rparr>"

definition rent :: expense where
  "rent = \<lparr>paidByUserId = ''u2'', groupId = Some ''g1'', date = 1765000000000,
           splits = [\<lparr>userId = ''u1'', amount = 25, paid = False\<rparr>]\<rparr>"

definition refund :: settlement where
  "refund = \<lparr>s_paidByUserId = ''u2'', receivedByUserId = ''u1'', s_groupId = None,
             s_amount = 10\<rparr>"

definition payback :: settlement where
  "payback = \<lparr>s_paidByUserId = ''u3'', receivedByUserId = ''u1'', s_groupId = None,
              s_amount = 15\<rparr>"

definition transfer :: settlement where
  "transfer = \<lparr>s_paidByUserId = ''u1'', receivedByUserId = ''u2'', s_groupId = Some ''g1'',
               s_amount = 5\<rparr>"

definition flat :: group where
  "flat = \<lparr>g_id = ''g1'', g_name = ''flat'', description = ''shared flat'', createdBy = ''u1'',
           members = [\<lparr>m_userId = ''u1'', role = ''admin'', joinedAt = 1760000000000\<rparr>,
                      \<lparr>m_userId = ''u2'', role = ''member'', joinedAt = 1760000000000\<rparr>]\<rparr>"

definition demo_db :: db where
  "demo_db = \<lparr>tbl_users = [alice, bob, carol, dave], tbl_groups = [flat],
              tbl_expenses = [lunch, taxi, coffee, dinner, rent],
              tbl_settlements = [refund, payback, transfer]\<rparr>"

definition demo :: ctx where
  "demo = \<lparr>db = demo_db, auth = Some ''tok1'', now = 1793620000000\<rparr>"

text \<open>
  Settlements to add to the sample: one of Alice to Bob, and one in each direction between
  Alice and Dave, who have no expense and no settlement in common. \<open>bare\<close> is a
  database with two users and no expense or settlement, and \<open>gift\<close> a settlement to add
  to it.
\<close>

definition topup :: settlement where
  "topup = \<lparr>s_paidByUserId = ''u1'', receivedByUserId = ''u2'', s_groupId = None,
            s_amount = 7\<rparr>"





text \<open>
  Two users with records between the two of them only, seen by each of them.
\<close>

definition meal :: expense where
  "meal = \<lparr>paidByUserId = ''u1'', groupId = None, date = 1770000000000,
           splits = [\<lparr>userId = ''u1'', amount = 50, paid = True\<rparr>,
                     \<lparr>userId = ''u2'', amount = 30, paid = False\<rparr>]\<rparr>"

definition pair_db :: db where
  "pair_db = \<lparr>tbl_users = [alice, bob], tbl_groups = [], tbl_expenses = [meal, taxi],
              tbl_settlements = [refund]\<rparr>"

definition pairA :: ctx where
  "pairA = \<lparr>db = pair_db, auth = Some ''tok1'', now = 1793620000000\<rparr>"

definition pairB :: ctx where
  "pairB = \<lparr>db = pair_db, auth = Some ''tok2'', now = 1793620000000\<rparr>"

text \<open>
  An expense that names Bob in two splits, and a settlement that Alice paid to herself
  beside an ordinary expense; each seen by Alice and by Bob.
\<close>

definition twice :: expense where
  "twice = \<lparr>paidByUserId = ''u1'', groupId = None, date = 1770000000000,
            splits = [\<lparr>userId = ''u2'', amount = 100, paid = False\<rparr>,
                      \<lparr>userId = ''u2'', amount = 50, paid = False\<rparr>]\<rparr>"

definition dup_db :: db where
  "dup_db = \<lparr>tbl_users = [alice, bob], tbl_groups = [], tbl_expenses = [twice],
             tbl_settlements = []\<rparr>"

definition dupA :: ctx where
  "dupA = \<lparr>db = dup_db, auth = Some ''tok1'', now = 1793620000000\<rparr>"

definition dupB :: ctx where
  "dupB = \<lparr>db = dup_db, auth = Some ''tok2'', now = 1793620000000\<rparr>"

definition treat :: expense where
  "treat = \<lparr>paidByUserId = ''u1'', groupId = None, date = 1770000000000,
            splits = [\<lparr>userId = ''u2'', amount = 30, paid = False\<rparr>]\<rparr>"

definition selfpay :: settlement where
  "selfpay = \<lparr>s_paidByUserId = ''u1'', receivedByUserId = ''u1'', s_groupId = None,
              s_amount = 10\<rparr>"

definition self_db :: db where
  "self_db = \<lparr>tbl_users = [alice, bob], tbl_groups = [], tbl_expenses = [treat],
              tbl_settlements = [selfpay]\<rparr>"

definition selfA :: ctx where
  "selfA = \<lparr>db = self_db, auth = Some ''tok1'', now = 1793620000000\<rparr>"

definition selfB :: ctx where
  "selfB = \<lparr>db = self_db, auth = Some ''tok2'', now = 1793620000000\<rparr>"




text \<open>
  An expense dated 15 January 2027, seen on 2 November 2026.
\<close>

definition booking :: expense where
  "booking = \<lparr>paidByUserId = ''u1'', groupId = None, date = 1800000000000,
              splits = [\<lparr>userId = ''u1'', amount = 25, paid = True\<rparr>]\<rparr>"

definition ahead :: ctx where
  "ahead = \<lparr>db = \<lparr>tbl_users = [alice], tbl_groups = [], tbl_expenses = [booking],
                   tbl_settlements = []\<rparr>,
             auth = Some ''tok1'', now = 1793620000000\<rparr>"

text \<open>
  An expense of Alice split with Zoe, the deleted user \<open>u9\<close> and Victor, in this order;
  and the same without the deleted user.
\<close>

definition zoe :: user where
  "zoe = \<lparr>u_id = ''u5'', name = ''zoe'', email = ''zoe@example.org'', imageUrl = None,
          tokenIdentifier = ''tok5''\<rparr>"

definition victor :: user where
  "victor = \<lparr>u_id = ''u6'', name = ''victor'', email = ''victor@example.org'',
             imageUrl = None, tokenIdentifier = ''tok6''\<rparr>"

definition outing :: expense where
  "outing = \<lparr>paidByUserId = ''u1'', groupId = None, date = 1770000000000,
             splits = [\<lparr>userId = ''u5'', amount = 10, paid = False\<rparr>,
                       \<lparr>userId = ''u9'', amount = 10, paid = False\<rparr>,
                       \<lparr>userId = ''u6'', amount = 10, paid = False\<rparr>]\<rparr>"

definition trio :: ctx where
  "trio = \<lparr>db = \<lparr>tbl_users = [alice, zoe, victor], tbl_groups = [],
                  tbl_expenses = [outing], tbl_settlements = []\<rparr>,
            auth = Some ''tok1'', now = 1793620000000\<rparr>"

definition walk :: expense where
  "walk = \<lparr>paidByUserId = ''u1'', groupId = None, date = 1770000000000,
           splits = [\<lparr>userId = ''u5'', amount = 10, paid = False\<rparr>,
                     \<lparr>userId = ''u6'', amount = 10, paid = False\<rparr>]\<rparr>"

definition duo :: ctx where
  "duo = \<lparr>db = \<lparr>tbl_users = [alice, zoe, victor], tbl_groups = [],
                 tbl_expenses = [walk], tbl_settlements = []\<rparr>,
           auth = Some ''tok1'', now = 1793620000000\<rparr>"

text \<open>
  Amounts past the integers that a double holds exactly: Bob owes Alice \<open>2 ^ 53\<close> and
  Carol owes her 1 twice; and Alice's own shares are \<open>2 ^ 53\<close> in January and 1 twice
  in February.
\<close>

definition big :: expense where
  "big = \<lparr>paidByUserId = ''u1'', groupId = None, date = 1768000000000,
          splits = [\<lparr>userId = ''u2'', amount = 9007199254740992, paid = False\<rparr>]\<rparr>"

definition small :: expense where
  "small = \<lparr>paidByUserId = ''u1'', groupId = None, date = 1770000000000,
            splits = [\<lparr>userId = ''u3'', amount = 1, paid = False\<rparr>]\<rparr>"

definition vast :: ctx where
  "vast = \<lparr>db = \<lparr>tbl_users = [alice, bob, carol], tbl_groups = [],
                  tbl_expenses = [big, small, small], tbl_settlements = []\<rparr>,
            auth = Some ''tok1'', now = 1793620000000\<rparr>"

definition jan :: expense where
  "jan = \<lparr>paidByUserId = ''u1'', groupId = None, date = 1768000000000,
          splits = [\<lparr>userId = ''u1'', amount = 9007199254740992, paid = True\<rparr>]\<rparr>"

definition feb :: expense where
  "feb = \<lparr>paidByUserId = ''u1'', groupId = None, date = 1770000000000,
          splits = [\<lparr>userId = ''u1'', amount = 1, paid = True\<rparr>]\<rparr>"

definition costly :: ctx where
  "costly = \<lparr>db = \<lparr>tbl_users = [alice], tbl_groups = [],
                    tbl_expenses = [jan, feb, feb], tbl_settlements = []\<rparr>,
              auth = Some ''tok1'', now = 1793620000000\<rparr>"

section \<open>The sort keeps the elements\<close>

lemma mset_take_drop: "mset (take n xs) + mset (drop n xs) = mset xs"
  using mset_append [of "take n xs" "drop n xs"] by simp

lemma mset_binaryInsertionSort:
  "mset (binaryInsertionSort cmp pre rest) = mset pre + mset rest"
  by (induction rest arbitrary: pre) (simp_all add: Let_def mset_take_drop)

lemma mset_countAndMakeRun:
  "countAndMakeRun cmp a = (a', n) \<Longrightarrow> mset a' = mset a"
proof -
  have "mset (rev (take k a) @ drop k a) = mset a" for k
    using mset_take_drop [of k a] by simp
  then show "countAndMakeRun cmp a = (a', n) \<Longrightarrow> mset a' = mset a"
    unfolding countAndMakeRun_def Let_def
    by (auto simp: mset_take_drop split: list.splits if_splits)
qed

lemma mset_array_sort: "mset (array_sort cmp a) = mset a"
proof (cases "length a < 2")
  case True
  then show ?thesis by (simp add: array_sort_def)
next
  case False
  obtain a' n where r: "countAndMakeRun cmp a = (a', n)" by (cases "countAndMakeRun cmp a")
  with False mset_countAndMakeRun [OF r] mset_take_drop [of n a'] show ?thesis
    by (simp add: array_sort_def mset_binaryInsertionSort)
qed

lemma set_array_sort: "set (array_sort cmp a) = set a"
proof -
  have "set (array_sort cmp a) = set_mset (mset (array_sort cmp a))" by simp
  also have "\<dots> = set a" by (simp only: mset_array_sort set_mset_mset)
  finally show ?thesis .
qed

lemma sum_list_array_sort:
  fixes f :: "'a \<Rightarrow> int"
  shows "sum_list (map f (array_sort cmp a)) = sum_list (map f a)"
proof -
  have "sum_list (map f (array_sort cmp a)) = sum_mset (image_mset f (mset (array_sort cmp a)))"
    by (simp only: mset_map [symmetric] sum_mset_sum_list)
  also have "\<dots> = sum_mset (image_mset f (mset a))" by (simp only: mset_array_sort)
  also have "\<dots> = sum_list (map f a)" by (simp only: mset_map [symmetric] sum_mset_sum_list)
  finally show ?thesis .
qed

lemma length_array_sort: "length (array_sort cmp a) = length a"
  using arg_cong [OF mset_array_sort [of cmp a], of size] by simp

section \<open>The tallies\<close>

lemma keys_tallyAt: "set (map fst (tallyAt k f m)) = insert k (set (map fst m))"
  by (induction m) (force split: if_splits)+

lemma distinct_tallyAt:
  "distinct (map fst m) \<Longrightarrow> distinct (map fst (tallyAt k f m))"
proof (induction m)
  case Nil
  show ?case by simp
next
  case (Cons p m)
  obtain k' t where p: "p = (k', t)" by (cases p)
  from Cons keys_tallyAt [of k f m] show ?case by (auto simp: p)
qed


lemma sum_tallyAt:
  assumes "\<And>t. g (f t) = g t + x" and "g zeroTally = 0"
  shows "(\<Sum>p\<leftarrow>tallyAt k f m. g (snd p)) = (\<Sum>p\<leftarrow>m. g (snd p)) + (x::int)"
  using assms by (induction m) (auto simp: algebra_simps)

section \<open>The ledger at the end\<close>

lemma tallySums_creditSplit: "tallySums st \<Longrightarrow> tallySums (creditSplit me st s)"
  by (simp add: tallySums_def creditSplit_def sum_tallyAt zeroTally_def distinct_tallyAt)

lemma tallySums_credit_all: "tallySums st \<Longrightarrow> tallySums (foldl (creditSplit me) st ss)"
  by (induction ss arbitrary: st) (simp_all add: tallySums_creditSplit)

lemma tallySums_addExpense: "tallySums st \<Longrightarrow> tallySums (addExpense me st e)"
  by (auto simp: addExpense_def Let_def tallySums_credit_all split: option.splits)
     (simp_all add: tallySums_def sum_tallyAt zeroTally_def distinct_tallyAt)

lemma tallySums_applySettlement: "tallySums st \<Longrightarrow> tallySums (applySettlement me st s)"
  by (simp add: tallySums_def applySettlement_def sum_tallyAt zeroTally_def distinct_tallyAt)

lemma tallySums_foldl:
  assumes "\<And>st x. tallySums st \<Longrightarrow> tallySums (step st x)"
  shows "tallySums st \<Longrightarrow> tallySums (foldl step st xs)"
  by (induction xs arbitrary: st) (simp_all add: assms)

lemma tallySums_finalLedger: "tallySums (finalLedger d me)"
proof -
  have "tallySums emptyLedger" by (simp add: tallySums_def emptyLedger_def)
  then have "tallySums (foldl (addExpense me) emptyLedger (oneToOneExpenses d me))"
    by (rule tallySums_foldl [rotated]) (rule tallySums_addExpense)
  then show ?thesis
    unfolding finalLedger_def
    by (rule tallySums_foldl [rotated]) (rule tallySums_applySettlement)
qed

lemma foldl_pushEntry:
  "foldl (pushEntry d) (a, b) m =
     (a @ map (entryOf d) (filter (\<lambda>p. net (snd p) < 0) m),
      b @ map (entryOf d) (filter (\<lambda>p. net (snd p) > 0) m))"
  by (induction m arbitrary: a b) (auto simp: pushEntry_def entryOf_def)

lemma b_amount_entryOf [simp]: "b_amount (entryOf d p) = \<bar>net (snd p)\<bar>"
  by (simp add: entryOf_def mkBase_def Let_def)

lemma b_userId_entryOf [simp]: "b_userId (entryOf d p) = fst p"
  by (simp add: entryOf_def mkBase_def Let_def)

lemma sum_net_split:
  "(\<Sum>p\<leftarrow>m. net (snd p)) =
     (\<Sum>p\<leftarrow>filter (\<lambda>p. net (snd p) > 0) m. \<bar>net (snd p)\<bar>) -
     (\<Sum>p\<leftarrow>filter (\<lambda>p. net (snd p) < 0) m. \<bar>net (snd p)\<bar>)"
  by (induction m) auto

lemma sum_net: "(\<Sum>p\<leftarrow>m. net (snd p)) = (\<Sum>p\<leftarrow>m. owed (snd p)) - (\<Sum>p\<leftarrow>m. owing (snd p))"
  by (induction m) (auto simp: net_def)

lemma youOweList_userBalances:
  "youOweList (oweDetails (userBalances d me)) =
     array_sort byAmountDesc
       (map (entryOf d) (filter (\<lambda>p. net (snd p) < 0) (balanceByUser (finalLedger d me))))"
  by (simp add: userBalances_def Let_def foldl_pushEntry)

lemma youAreOwedByList_userBalances:
  "youAreOwedByList (oweDetails (userBalances d me)) =
     array_sort byAmountDesc
       (map (entryOf d) (filter (\<lambda>p. net (snd p) > 0) (balanceByUser (finalLedger d me))))"
  by (simp add: userBalances_def Let_def foldl_pushEntry)

lemma totals_userBalances:
  "res_youOwe (userBalances d me) = youOwe (finalLedger d me)"
  "res_youAreOwed (userBalances d me) = youAreOwed (finalLedger d me)"
  "totalBalance (userBalances d me) = youAreOwed (finalLedger d me) - youOwe (finalLedger d me)"
  by (simp_all add: userBalances_def Let_def)

lemma getUserBalances_Inr:
  "getCurrentUser c = Inr user \<Longrightarrow> getUserBalances c = Inr (userBalances (db c) (u_id user))"
  by (simp add: getUserBalances_def)

lemma totals_details:
  "totalBalance (userBalances d me) =
     (\<Sum>b\<leftarrow>youAreOwedByList (oweDetails (userBalances d me)). b_amount b) -
     (\<Sum>b\<leftarrow>youOweList (oweDetails (userBalances d me)). b_amount b)"
proof -
  let ?m = "balanceByUser (finalLedger d me)"
  have "totalBalance (userBalances d me) = (\<Sum>p\<leftarrow>?m. net (snd p))"
    using tallySums_finalLedger [of d me]
    by (simp add: totals_userBalances tallySums_def sum_net)
  then show ?thesis
    by (simp add: youOweList_userBalances youAreOwedByList_userBalances
        sum_list_array_sort sum_net_split [of ?m] comp_def)
qed


lemma distinct_keys_finalLedger: "distinct (map fst (balanceByUser (finalLedger d me)))"
  using tallySums_finalLedger [of d me] by (simp add: tallySums_def)

lemma in_owedBy_iff:
  "b \<in> set (youAreOwedByList (oweDetails (userBalances d me))) \<longleftrightarrow>
     (\<exists>p \<in> set (balanceByUser (finalLedger d me)). net (snd p) > 0 \<and> b = entryOf d p)"
  by (auto simp: youAreOwedByList_userBalances set_array_sort)

lemma in_owe_iff:
  "b \<in> set (youOweList (oweDetails (userBalances d me))) \<longleftrightarrow>
     (\<exists>p \<in> set (balanceByUser (finalLedger d me)). net (snd p) < 0 \<and> b = entryOf d p)"
  by (auto simp: youOweList_userBalances set_array_sort)

lemma routing:
  assumes "(uid, t) \<in> set (balanceByUser (finalLedger d me))"
  shows "0 < net t \<Longrightarrow> entryOf d (uid, t) \<in> set (youAreOwedByList (oweDetails (userBalances d me)))"
    and "net t < 0 \<Longrightarrow> entryOf d (uid, t) \<in> set (youOweList (oweDetails (userBalances d me)))"
    and "net t \<le> 0 \<Longrightarrow> uid \<notin> b_userId ` set (youAreOwedByList (oweDetails (userBalances d me)))"
    and "0 \<le> net t \<Longrightarrow> uid \<notin> b_userId ` set (youOweList (oweDetails (userBalances d me)))"
proof -
  let ?m = "balanceByUser (finalLedger d me)"
  have same: "t' = t" if "(uid, t') \<in> set ?m" for t'
    using eq_key_imp_eq_value [OF distinct_keys_finalLedger that assms] .
  show "0 < net t \<Longrightarrow> entryOf d (uid, t) \<in> set (youAreOwedByList (oweDetails (userBalances d me)))"
    using assms by (force simp: in_owedBy_iff)
  show "net t < 0 \<Longrightarrow> entryOf d (uid, t) \<in> set (youOweList (oweDetails (userBalances d me)))"
    using assms by (force simp: in_owe_iff)
  show "net t \<le> 0 \<Longrightarrow> uid \<notin> b_userId ` set (youAreOwedByList (oweDetails (userBalances d me)))"
  proof
    assume le: "net t \<le> 0" and "uid \<in> b_userId ` set (youAreOwedByList (oweDetails (userBalances d me)))"
    then obtain p where p: "p \<in> set ?m" "net (snd p) > 0" "fst p = uid"
      by (auto simp: in_owedBy_iff)
    then have "snd p = t" using same [of "snd p"] by (cases p) auto
    with p le show False by simp
  qed
  show "0 \<le> net t \<Longrightarrow> uid \<notin> b_userId ` set (youOweList (oweDetails (userBalances d me)))"
  proof
    assume le: "0 \<le> net t" and "uid \<in> b_userId ` set (youOweList (oweDetails (userBalances d me)))"
    then obtain p where p: "p \<in> set ?m" "net (snd p) < 0" "fst p = uid"
      by (auto simp: in_owe_iff)
    then have "snd p = t" using same [of "snd p"] by (cases p) auto
    with p le show False by simp
  qed
qed


lemma getCurrentUser_insertSettlement [simp]:
  "getCurrentUser (insertSettlement s c) = getCurrentUser c"
  by (simp add: getCurrentUser_def insertSettlement_def split: option.splits)

lemma finalLedger_insertSettlement:
  assumes "s_groupId s = None" and "s_paidByUserId s = me \<or> receivedByUserId s = me"
  shows "finalLedger (db (insertSettlement s c)) me = applySettlement me (finalLedger (db c) me) s"
  using assms
  by (simp add: finalLedger_def insertSettlement_def oneToOneSettlements_def oneToOneExpenses_def)


section \<open>The sample records, evaluated\<close>

lemmas demo_defs = demo_def demo_db_def alice_def bob_def carol_def dave_def lunch_def taxi_def
  coffee_def dinner_def rent_def refund_def payback_def transfer_def flat_def

lemmas balance_defs = finalLedger_def oneToOneExpenses_def oneToOneSettlements_def
  involved_def addExpense_def creditSplit_def applySettlement_def emptyLedger_def
  zeroTally_def

lemma demo_ids: "u_id alice = ''u1''" "db demo = demo_db" "now demo = 1793620000000"
  by (simp_all add: alice_def demo_def)

lemma demo_user: "getCurrentUser demo = Inr alice"
  by (simp add: getCurrentUser_def demo_defs)

lemma demo_ledger:
  "finalLedger demo_db ''u1'' =
     \<lparr>youOwe = 40, youAreOwed = 40,
      balanceByUser = [(''u2'', \<lparr>owed = 20, owing = 40\<rparr>), (''u9'', \<lparr>owed = 20, owing = 0\<rparr>),
                       (''u3'', \<lparr>owed = 0, owing = 0\<rparr>)]\<rparr>"
  by (simp add: balance_defs demo_defs)

lemma demo_balances:
  "userBalances demo_db ''u1'' =
     \<lparr>res_youOwe = 40, res_youAreOwed = 40, totalBalance = 0,
      oweDetails =
        \<lparr>youOweList = [\<lparr>b_userId = ''u2'', b_name = ''bob'', b_imageUrl = Some ''bob.png'',
                         b_amount = 20\<rparr>],
         youAreOwedByList = [\<lparr>b_userId = ''u9'', b_name = ''Unknown'', b_imageUrl = None,
                               b_amount = 20\<rparr>]\<rparr>\<rparr>"
  by (simp add: userBalances_def demo_ledger pushEntry_def net_def mkBase_def db_get_def
      array_sort_def) (simp add: demo_defs)



section \<open>One more settlement\<close>




section \<open>The contacts\<close>







section \<open>Balances as sums of shares\<close>

lemma position_credit_all:
  "position (foldl (creditSplit me) st ss) =
     position st + (\<Sum>s\<leftarrow>filter (\<lambda>s. userId s \<noteq> me \<and> \<not> paid s) ss. amount s)"
  by (induction ss arbitrary: st) (auto simp: creditSplit_def position_def)

lemma position_addExpense:
  "position (addExpense me st e) = position st + expenseShare me e"
  by (auto simp: addExpense_def Let_def expenseShare_def unpaidOthers_def ownUnpaidSplit_def
      position_credit_all split: option.splits)
    (simp_all add: position_def)

lemma position_expenses:
  "position (foldl (addExpense me) st es) = position st + (\<Sum>e\<leftarrow>es. expenseShare me e)"
  by (induction es arbitrary: st) (simp_all add: position_addExpense)

lemma position_applySettlement:
  "position (applySettlement me st s) = position st + settlementShare me s"
  by (simp add: applySettlement_def settlementShare_def position_def)

lemma position_settlements:
  "position (foldl (applySettlement me) st ss) =
     position st + (\<Sum>s\<leftarrow>ss. settlementShare me s)"
  by (induction ss arbitrary: st) (simp_all add: position_applySettlement)

lemma totalBalance_sums:
  "totalBalance (userBalances d me) =
     (\<Sum>e\<leftarrow>oneToOneExpenses d me. expenseShare me e) +
     (\<Sum>s\<leftarrow>oneToOneSettlements d me. settlementShare me s)"
proof -
  have "totalBalance (userBalances d me) = position (finalLedger d me)"
    by (simp add: totals_userBalances position_def)
  also have "\<dots> = (\<Sum>e\<leftarrow>oneToOneExpenses d me. expenseShare me e) +
     (\<Sum>s\<leftarrow>oneToOneSettlements d me. settlementShare me s)"
    by (simp add: finalLedger_def position_settlements position_expenses)
      (simp add: position_def emptyLedger_def)
  finally show ?thesis .
qed

lemma sum_filter_absent:
  "y \<notin> userId ` set ss \<Longrightarrow> (\<Sum>s\<leftarrow>filter (\<lambda>s. userId s = y \<and> \<not> paid s) ss. amount s) = 0"
  by (induction ss) auto

lemma sum_unique_split:
  "distinct (map userId ss) \<Longrightarrow>
     (\<Sum>s\<leftarrow>filter (\<lambda>s. userId s = y \<and> \<not> paid s) ss. amount s) =
       (case find (\<lambda>s. userId s = y) ss of
          None \<Rightarrow> 0
        | Some s \<Rightarrow> if paid s then 0 else amount s)"
  by (induction ss) (auto simp: sum_filter_absent)

lemma others_are_the_other:
  assumes "x \<noteq> y" and "userId ` set ss \<subseteq> {x, y}"
  shows "filter (\<lambda>s. userId s \<noteq> x \<and> \<not> paid s) ss = filter (\<lambda>s. userId s = y \<and> \<not> paid s) ss"
  using assms by (intro filter_cong) auto

lemma find_None_not_involved:
  "find (\<lambda>s. userId s = y) ss = None \<longleftrightarrow> \<not> list_ex (\<lambda>s. userId s = y) ss"
  by (auto simp: find_None_iff list_ex_iff)

lemma expense_mirror:
  assumes "x \<noteq> y" and "paidByUserId e = x" and "userId ` set (splits e) \<subseteq> {x, y}"
    and "distinct (map userId (splits e))"
  shows "(if involved x e then expenseShare x e else 0) =
           - (if involved y e then expenseShare y e else 0)"
proof -
  have "expenseShare x e = ownUnpaidSplit y e"
    using assms
    by (simp add: expenseShare_def unpaidOthers_def ownUnpaidSplit_def
        others_are_the_other [OF assms(1,3)] sum_unique_split)
  moreover have "involved x e" using assms(2) by (simp add: involved_def)
  moreover have "expenseShare y e = - ownUnpaidSplit y e"
    using assms(1,2) by (simp add: expenseShare_def)
  moreover have "ownUnpaidSplit y e = 0" if "\<not> involved y e"
    using that assms(1,2)
    by (simp add: involved_def ownUnpaidSplit_def find_None_not_involved [symmetric])
  ultimately show ?thesis by auto
qed

lemma sum_list_neg:
  fixes f g :: "'a \<Rightarrow> int"
  assumes "\<And>x. x \<in> set xs \<Longrightarrow> f x = - g x"
  shows "(\<Sum>x\<leftarrow>xs. f x) = - (\<Sum>x\<leftarrow>xs. g x)"
  using assms by (induction xs) auto

lemma sum_filter_if:
  fixes f :: "'a \<Rightarrow> int"
  shows "(\<Sum>x\<leftarrow>filter P xs. f x) = (\<Sum>x\<leftarrow>xs. if P x then f x else 0)"
  by (induction xs) auto

lemma conservation:
  assumes ne: "A \<noteq> B"
    and exps: "\<forall>e \<in> set (tbl_expenses d).
        groupId e = None \<and> paidByUserId e \<in> {A, B} \<and> userId ` set (splits e) \<subseteq> {A, B} \<and>
        distinct (map userId (splits e))"
    and sets: "\<forall>s \<in> set (tbl_settlements d).
        s_groupId s = None \<and>
        (s_paidByUserId s = A \<and> receivedByUserId s = B \<or>
         s_paidByUserId s = B \<and> receivedByUserId s = A)"
  shows "totalBalance (userBalances d A) = - totalBalance (userBalances d B)"
proof -
  have e: "(if groupId e = None \<and> involved A e then expenseShare A e else 0) =
         - (if groupId e = None \<and> involved B e then expenseShare B e else 0)"
    if "e \<in> set (tbl_expenses d)" for e
  proof -
    from exps that have g: "groupId e = None" and p: "paidByUserId e \<in> {A, B}"
      and u: "userId ` set (splits e) \<subseteq> {A, B}" and dist: "distinct (map userId (splits e))"
      by auto
    from p consider "paidByUserId e = A" | "paidByUserId e = B" by auto
    then show ?thesis
    proof cases
      case 1
      from expense_mirror [OF ne 1 u dist] g show ?thesis by simp
    next
      case 2
      from u have "userId ` set (splits e) \<subseteq> {B, A}" by auto
      from expense_mirror [OF ne [symmetric] 2 this dist] g show ?thesis by simp
    qed
  qed
  have s: "(if s_groupId s = None \<and> (s_paidByUserId s = A \<or> receivedByUserId s = A)
            then settlementShare A s else 0) =
         - (if s_groupId s = None \<and> (s_paidByUserId s = B \<or> receivedByUserId s = B)
            then settlementShare B s else 0)"
    if "s \<in> set (tbl_settlements d)" for s
    using sets that ne by (auto simp: settlementShare_def)
  show ?thesis
    unfolding totalBalance_sums oneToOneExpenses_def oneToOneSettlements_def sum_filter_if
    using sum_list_neg [of "tbl_expenses d", OF e] sum_list_neg [of "tbl_settlements d", OF s]
    by simp
qed

lemma pair_users: "getCurrentUser pairA = Inr alice" "getCurrentUser pairB = Inr bob"
  by (simp_all add: getCurrentUser_def pairA_def pairB_def pair_db_def alice_def bob_def)

section \<open>The group balance\<close>







section \<open>The months\<close>

lemma sum_setKey:
  "(\<Sum>p\<leftarrow>setKey k v m. snd p) =
     (\<Sum>p\<leftarrow>m. snd p) - (case map_of m k of None \<Rightarrow> 0 | Some v' \<Rightarrow> v') + v"
  by (induction m) auto

lemma zeros_setKey:
  "list_all (\<lambda>p. snd p = 0) m \<Longrightarrow> list_all (\<lambda>p. snd p = (0::int)) (setKey k 0 m)"
  by (induction m) (auto split: if_splits)

lemma zeros_foldl_setKey:
  "list_all (\<lambda>p. snd p = 0) m \<Longrightarrow>
     list_all (\<lambda>p. snd p = (0::int))
       (foldl (\<lambda>monthlyTotals i. setKey (f i) 0 monthlyTotals) m xs)"
proof (induction xs arbitrary: m)
  case Nil
  then show ?case by simp
next
  case (Cons x xs)
  from Cons.prems have "list_all (\<lambda>p. snd p = (0::int)) (setKey (f x) 0 m)"
    by (rule zeros_setKey)
  then show ?case using Cons.IH by simp
qed

lemma sum_zeros: "list_all (\<lambda>p. snd p = (0::int)) m \<Longrightarrow> (\<Sum>p\<leftarrow>m. snd p) = 0"
  by (induction m) auto

lemma sum_initMonths: "(\<Sum>p\<leftarrow>initMonths y. snd p) = 0"
  unfolding initMonths_def by (rule sum_zeros, rule zeros_foldl_setKey) simp

lemma sum_addToMonth:
  "(\<Sum>p\<leftarrow>addToMonth me m e. snd p) = addShare me (\<Sum>p\<leftarrow>m. snd p) e"
  by (simp add: addToMonth_def addShare_def Let_def sum_setKey split: option.splits)

lemma sum_months:
  "(\<Sum>p\<leftarrow>foldl (addToMonth me) m es. snd p) = foldl (addShare me) (\<Sum>p\<leftarrow>m. snd p) es"
  by (induction es arbitrary: m) (simp_all add: sum_addToMonth)

lemma total_of_entries:
  "(\<Sum>x\<leftarrow>map (\<lambda>(k, v). \<lparr>month = k, total = v\<rparr>) m. total x) = (\<Sum>p\<leftarrow>m. snd p)"
  by (induction m) auto

lemma monthly_sum:
  "(\<Sum>x\<leftarrow>monthlySpending d time me. total x) = totalSpent d time me"
  by (simp add: monthlySpending_def totalSpent_def Let_def sum_list_array_sort
      total_of_entries sum_months sum_initMonths del: map_map)

section \<open>The year of a time value\<close>

text \<open>
  \<open>YearFromTime t\<close> is the year the language definition asks for: it starts at or
  before \<open>t\<close>, the next year starts after \<open>t\<close>, and years start in order.
\<close>

lemma div_bounds:
  fixes x k :: int
  assumes "0 < k"
  shows "k * (x div k) \<le> x" and "x < k * (x div k) + k"
  using mult_div_mod_eq [of k x] pos_mod_sign [OF assms, of x] pos_mod_bound [OF assms, of x]
  by linarith+

lemma DayFromYear_upper: "400 * DayFromYear y \<le> 146097 * (y - 1970) + 600"
  unfolding DayFromYear_def
  using div_bounds [of 4 "y - 1969"] div_bounds [of 100 "y - 1901"] div_bounds [of 400 "y - 1601"]
  by simp

lemma DayFromYear_lower: "146097 * (y - 1970) - 600 \<le> 400 * DayFromYear y"
  unfolding DayFromYear_def
  using div_bounds [of 4 "y - 1969"] div_bounds [of 100 "y - 1901"] div_bounds [of 400 "y - 1601"]
  by simp

lemma YearFromTime_largest:
  "DayFromYear (YearFromTime t) \<le> Day t \<and> Day t < DayFromYear (YearFromTime t + 1)"
proof -
  define d where "d = Day t"
  define y where "y = 1970 + (d * 400) div 146097"
  have e: "146097 * (y - 1970) \<le> 400 * d" "400 * d < 146097 * (y - 1970) + 146097"
    unfolding y_def using div_bounds [of 146097 "d * 400"] by simp_all
  have "400 * DayFromYear (y - 1) \<le> 400 * d"
    using DayFromYear_upper [of "y - 1"] e by (simp add: algebra_simps)
  then have lo: "DayFromYear (y - 1) \<le> d" by simp
  have "400 * d < 400 * DayFromYear (y + 2)"
    using DayFromYear_lower [of "y + 2"] e by (simp add: algebra_simps)
  then have hi: "d < DayFromYear (y + 2)" by simp
  from lo hi show ?thesis
    unfolding YearFromTime_def d_def [symmetric] y_def [symmetric] Let_def
    by (auto simp: add.commute)
qed

lemma DayFromYear_mono: "y \<le> y' \<Longrightarrow> DayFromYear y \<le> DayFromYear y'"
proof -
  have step: "DayFromYear y \<le> DayFromYear (y + 1)" for y
    unfolding DayFromYear_def
    using div_bounds [of 4 "y - 1969"] div_bounds [of 100 "y - 1901"] div_bounds [of 400 "y - 1601"]
      div_bounds [of 4 "y + 1 - 1969"] div_bounds [of 100 "y + 1 - 1901"]
      div_bounds [of 400 "y + 1 - 1601"]
    by simp
  show "y \<le> y' \<Longrightarrow> DayFromYear y \<le> DayFromYear y'"
  proof (induction "nat (y' - y)" arbitrary: y')
    case 0
    then show ?case by simp
  next
    case (Suc n)
    then have "n = nat (y' - 1 - y)" "y \<le> y' - 1" by linarith+
    from Suc.hyps(1) [OF this] step [of "y' - 1"] show ?case by simp
  qed
qed

section \<open>Where double precision is exact\<close>

text \<open>
  An integer below \<open>2 ^ 53\<close> in absolute value is its own rounding. While the volume
  of the amounts read stays below \<open>2 ^ 53\<close>, every running total and every tally is
  bounded by it, so the rounded passes are the exact ones.
\<close>

lemma roundDouble_samples:
  "roundDouble 9007199254740991 = 9007199254740991"
  "roundDouble 9007199254740993 = 9007199254740992"
  "roundDouble 9007199254740995 = 9007199254740996"
  "roundDouble (- 9007199254740995) = - 9007199254740996"
  "roundDouble 18014398509481986 = 18014398509481984"
  "roundDouble 18014398509481990 = 18014398509481992"
  by code_simp+

lemma width_le: "a < 2 ^ k \<Longrightarrow> width a \<le> k"
proof (induction k arbitrary: a)
  case 0
  then show ?case by (simp add: width.simps [of a])
next
  case (Suc k)
  then have "a div 2 < 2 ^ k" by simp
  from Suc.IH [OF this] show ?case by (simp add: width.simps [of a])
qed

lemma roundDouble_safe: "\<bar>x\<bar> < 2 ^ 53 \<Longrightarrow> roundDouble x = x"
proof -
  assume "\<bar>x\<bar> < 2 ^ 53"
  then have "width \<bar>x\<bar> \<le> 53" by (rule width_le)
  then show ?thesis by (simp add: roundDouble_def Let_def)
qed

lemma dplus_safe: "\<bar>x\<bar> + \<bar>y\<bar> < 2 ^ 53 \<Longrightarrow> dplus x y = x + y"
  unfolding dplus_def by (rule roundDouble_safe) linarith

lemma dminus_safe: "\<bar>x\<bar> + \<bar>y\<bar> < 2 ^ 53 \<Longrightarrow> dminus x y = x - y"
  unfolding dminus_def by (rule roundDouble_safe) linarith

lemma tallyWeight_nonneg: "0 \<le> tallyWeight m"
  unfolding tallyWeight_def by (rule sum_list_nonneg) auto

lemma tallyWeight_Cons:
  "tallyWeight (p # m) = \<bar>owed (snd p)\<bar> + \<bar>owing (snd p)\<bar> + tallyWeight m"
  by (simp add: tallyWeight_def)

lemma tally_le_weight:
  "(k, t) \<in> set m \<Longrightarrow> \<bar>owed t\<bar> + \<bar>owing t\<bar> \<le> tallyWeight m"
proof (induction m)
  case Nil
  then show ?case by simp
next
  case (Cons p m)
  from Cons tallyWeight_nonneg [of m] show ?case
    by (auto simp: tallyWeight_Cons)
qed

lemma tallyAt_cong:
  assumes "\<And>t. (k, t) \<in> set m \<Longrightarrow> f t = g t" and "f zeroTally = g zeroTally"
  shows "tallyAt k f m = tallyAt k g m"
  using assms by (induction m) auto

lemma weight_tallyAt:
  assumes "\<And>t. \<bar>owed (f t)\<bar> + \<bar>owing (f t)\<bar> \<le> \<bar>owed t\<bar> + \<bar>owing t\<bar> + c"
  shows "tallyWeight (tallyAt k f m) \<le> tallyWeight m + c"
proof (induction m)
  case Nil
  from assms [of zeroTally] show ?case by (simp add: tallyWeight_def zeroTally_def)
next
  case (Cons p m)
  obtain k' t where p: "p = (k', t)" by (cases p)
  from Cons assms [of t] show ?case by (simp add: tallyWeight_def p)
qed

lemma foldl_bridge:
  assumes step: "\<And>B st x. P B st \<Longrightarrow> B + cost x < lim \<Longrightarrow>
                   f' st x = f st x \<and> P (B + cost x) (f st x)"
    and nonneg: "\<And>x. (0::int) \<le> cost x"
  shows "P B st \<Longrightarrow> B + (\<Sum>x\<leftarrow>xs. cost x) < lim \<Longrightarrow>
           foldl f' st xs = foldl f st xs \<and> P (B + (\<Sum>x\<leftarrow>xs. cost x)) (foldl f st xs)"
proof (induction xs arbitrary: B st)
  case Nil
  then show ?case by simp
next
  case (Cons x xs)
  have "0 \<le> (\<Sum>x\<leftarrow>xs. cost x)" by (rule sum_list_nonneg) (auto simp: nonneg)
  with Cons.prems(2) have "B + cost x < lim" by simp
  from step [OF Cons.prems(1) this]
  have eq: "f' st x = f st x" and P: "P (B + cost x) (f st x)" by simp_all
  from Cons.prems(2) have "B + cost x + (\<Sum>x\<leftarrow>xs. cost x) < lim" by simp
  from Cons.IH [OF P this] show ?case by (simp add: eq add.assoc)
qed

lemma within_mono: "within B st \<Longrightarrow> B \<le> B' \<Longrightarrow> within B' st"
  by (simp add: within_def)

lemma creditSplit_bridge:
  assumes "within B st" and "B + \<bar>amount s\<bar> < 2 ^ 53"
  shows "creditSplit_f64 me st s = creditSplit me st s \<and>
         within (B + \<bar>amount s\<bar>) (creditSplit me st s)"
proof (cases "userId s = me \<or> paid s")
  case True
  with assms(1) show ?thesis
    by (auto simp: creditSplit_f64_def creditSplit_def within_def)
next
  case False
  let ?x = "amount s" and ?m = "balanceByUser st"
  from assms have a: "\<bar>youOwe st\<bar> + \<bar>youAreOwed st\<bar> \<le> B" and w: "tallyWeight ?m \<le> B"
    by (simp_all add: within_def)
  have 1: "dplus (youAreOwed st) ?x = youAreOwed st + ?x"
    using a assms(2) by (intro dplus_safe) linarith
  have 2: "tallyAt (userId s) (\<lambda>t. t\<lparr>owed := dplus (owed t) ?x\<rparr>) ?m =
           tallyAt (userId s) (\<lambda>t. t\<lparr>owed := owed t + ?x\<rparr>) ?m"
  proof (rule tallyAt_cong)
    fix t assume "(userId s, t) \<in> set ?m"
    from tally_le_weight [OF this] w assms(2)
    have "dplus (owed t) ?x = owed t + ?x" by (intro dplus_safe) linarith
    then show "t\<lparr>owed := dplus (owed t) ?x\<rparr> = t\<lparr>owed := owed t + ?x\<rparr>" by simp
  next
    from assms(2) a have "dplus 0 ?x = 0 + ?x" by (intro dplus_safe) linarith
    then show "zeroTally\<lparr>owed := dplus (owed zeroTally) ?x\<rparr> =
               zeroTally\<lparr>owed := owed zeroTally + ?x\<rparr>"
      by (simp add: zeroTally_def)
  qed
  have 3: "tallyWeight (tallyAt (userId s) (\<lambda>t. t\<lparr>owed := owed t + ?x\<rparr>) ?m) \<le>
           tallyWeight ?m + \<bar>?x\<bar>"
    by (rule weight_tallyAt) simp
  from False 1 2 3 a w show ?thesis
    by (simp add: creditSplit_f64_def creditSplit_def within_def)
qed

lemma credit_all_bridge:
  assumes "within B st" and "B + (\<Sum>s\<leftarrow>ss. \<bar>amount s\<bar>) < 2 ^ 53"
  shows "foldl (creditSplit_f64 me) st ss = foldl (creditSplit me) st ss \<and>
         within (B + (\<Sum>s\<leftarrow>ss. \<bar>amount s\<bar>)) (foldl (creditSplit me) st ss)"
  using assms
  by (rule foldl_bridge [where P = within and cost = "\<lambda>s. \<bar>amount s\<bar>", rotated 2])
     (simp_all add: creditSplit_bridge)

lemma amount_le_volume: "s \<in> set (splits e) \<Longrightarrow> \<bar>amount s\<bar> \<le> splitVolume e"
proof -
  have "s \<in> set ss \<Longrightarrow> \<bar>amount s\<bar> \<le> (\<Sum>s\<leftarrow>ss. \<bar>amount s\<bar>)" for ss
  proof (induction ss)
    case Nil
    then show ?case by simp
  next
    case (Cons a ss)
    have "0 \<le> (\<Sum>s\<leftarrow>ss. \<bar>amount s\<bar>)" by (rule sum_list_nonneg) auto
    with Cons show ?case by auto
  qed
  then show "s \<in> set (splits e) \<Longrightarrow> \<bar>amount s\<bar> \<le> splitVolume e"
    by (simp add: splitVolume_def)
qed

lemma splitVolume_nonneg: "0 \<le> splitVolume e"
  unfolding splitVolume_def by (rule sum_list_nonneg) auto

lemma owing_bridge:
  assumes "within B st" and "B + \<bar>x\<bar> < 2 ^ 53"
  shows "st\<lparr>youOwe := dplus (youOwe st) x,
            balanceByUser := tallyAt k (\<lambda>t. t\<lparr>owing := dplus (owing t) x\<rparr>) (balanceByUser st)\<rparr> =
         st\<lparr>youOwe := youOwe st + x,
            balanceByUser := tallyAt k (\<lambda>t. t\<lparr>owing := owing t + x\<rparr>) (balanceByUser st)\<rparr>"
    and "within (B + \<bar>x\<bar>)
           (st\<lparr>youOwe := youOwe st + x,
               balanceByUser := tallyAt k (\<lambda>t. t\<lparr>owing := owing t + x\<rparr>) (balanceByUser st)\<rparr>)"
proof -
  let ?m = "balanceByUser st"
  from assms have a: "\<bar>youOwe st\<bar> + \<bar>youAreOwed st\<bar> \<le> B" and w: "tallyWeight ?m \<le> B"
    by (simp_all add: within_def)
  have 1: "dplus (youOwe st) x = youOwe st + x"
    using a assms(2) by (intro dplus_safe) linarith
  have 2: "tallyAt k (\<lambda>t. t\<lparr>owing := dplus (owing t) x\<rparr>) ?m =
           tallyAt k (\<lambda>t. t\<lparr>owing := owing t + x\<rparr>) ?m"
  proof (rule tallyAt_cong)
    fix t assume "(k, t) \<in> set ?m"
    from tally_le_weight [OF this] w assms(2)
    have "dplus (owing t) x = owing t + x" by (intro dplus_safe) linarith
    then show "t\<lparr>owing := dplus (owing t) x\<rparr> = t\<lparr>owing := owing t + x\<rparr>" by simp
  next
    from assms(2) a have "dplus 0 x = 0 + x" by (intro dplus_safe) linarith
    then show "zeroTally\<lparr>owing := dplus (owing zeroTally) x\<rparr> =
               zeroTally\<lparr>owing := owing zeroTally + x\<rparr>"
      by (simp add: zeroTally_def)
  qed
  have 3: "tallyWeight (tallyAt k (\<lambda>t. t\<lparr>owing := owing t + x\<rparr>) ?m) \<le> tallyWeight ?m + \<bar>x\<bar>"
    by (rule weight_tallyAt) simp
  from 1 2 show "st\<lparr>youOwe := dplus (youOwe st) x,
            balanceByUser := tallyAt k (\<lambda>t. t\<lparr>owing := dplus (owing t) x\<rparr>) (balanceByUser st)\<rparr> =
         st\<lparr>youOwe := youOwe st + x,
            balanceByUser := tallyAt k (\<lambda>t. t\<lparr>owing := owing t + x\<rparr>) (balanceByUser st)\<rparr>"
    by simp
  from 3 a w show "within (B + \<bar>x\<bar>)
           (st\<lparr>youOwe := youOwe st + x,
               balanceByUser := tallyAt k (\<lambda>t. t\<lparr>owing := owing t + x\<rparr>) (balanceByUser st)\<rparr>)"
    by (simp add: within_def)
qed

lemma addExpense_bridge:
  assumes "within B st" and "B + splitVolume e < 2 ^ 53"
  shows "addExpense_f64 me st e = addExpense me st e \<and>
         within (B + splitVolume e) (addExpense me st e)"
proof (cases "paidByUserId e = me")
  case True
  with credit_all_bridge [OF assms(1), of "splits e" me] assms(2) show ?thesis
    by (simp add: addExpense_f64_def addExpense_def splitVolume_def)
next
  case False
  show ?thesis
  proof (cases "find (\<lambda>s. userId s = me) (splits e)")
    case None
    with False assms(1) splitVolume_nonneg [of e] show ?thesis
      by (auto simp: addExpense_f64_def addExpense_def intro: within_mono)
  next
    case (Some s)
    then have "s \<in> set (splits e)" by (auto simp: find_Some_iff)
    from amount_le_volume [OF this] assms(2) have b: "B + \<bar>amount s\<bar> < 2 ^ 53"
      and le: "B + \<bar>amount s\<bar> \<le> B + splitVolume e" by simp_all
    show ?thesis
    proof (cases "paid s")
      case True
      with False Some assms(1) splitVolume_nonneg [of e] show ?thesis
        by (auto simp: addExpense_f64_def addExpense_def intro: within_mono)
    next
      case unpaid: False
      from owing_bridge [OF assms(1) b, of "paidByUserId e"] False Some unpaid le
      show ?thesis
        by (auto simp: addExpense_f64_def addExpense_def intro: within_mono)
    qed
  qed
qed

lemma expenses_bridge:
  assumes "within B st" and "B + (\<Sum>e\<leftarrow>es. splitVolume e) < 2 ^ 53"
  shows "foldl (addExpense_f64 me) st es = foldl (addExpense me) st es \<and>
         within (B + (\<Sum>e\<leftarrow>es. splitVolume e)) (foldl (addExpense me) st es)"
  using assms
  by (rule foldl_bridge [where P = within and cost = splitVolume, rotated 2])
     (simp_all add: addExpense_bridge splitVolume_nonneg)

lemma applySettlement_bridge:
  assumes "within B st" and "B + \<bar>s_amount s\<bar> < 2 ^ 53"
  shows "applySettlement_f64 me st s = applySettlement me st s \<and>
         within (B + \<bar>s_amount s\<bar>) (applySettlement me st s)"
proof -
  let ?x = "s_amount s" and ?m = "balanceByUser st"
  from assms have a: "\<bar>youOwe st\<bar> + \<bar>youAreOwed st\<bar> \<le> B" and w: "tallyWeight ?m \<le> B"
    by (simp_all add: within_def)
  have 1: "dminus (youOwe st) ?x = youOwe st - ?x" "dminus (youAreOwed st) ?x = youAreOwed st - ?x"
    using a assms(2) by (intro dminus_safe; linarith)+
  have 2: "tallyAt k (\<lambda>t. t\<lparr>owing := dminus (owing t) ?x\<rparr>) ?m =
           tallyAt k (\<lambda>t. t\<lparr>owing := owing t - ?x\<rparr>) ?m" for k
  proof (rule tallyAt_cong)
    fix t assume "(k, t) \<in> set ?m"
    from tally_le_weight [OF this] w assms(2)
    have "dminus (owing t) ?x = owing t - ?x" by (intro dminus_safe) linarith
    then show "t\<lparr>owing := dminus (owing t) ?x\<rparr> = t\<lparr>owing := owing t - ?x\<rparr>" by simp
  next
    from assms(2) a have "dminus 0 ?x = 0 - ?x" by (intro dminus_safe) linarith
    then show "zeroTally\<lparr>owing := dminus (owing zeroTally) ?x\<rparr> =
               zeroTally\<lparr>owing := owing zeroTally - ?x\<rparr>"
      by (simp add: zeroTally_def)
  qed
  have 3: "tallyAt k (\<lambda>t. t\<lparr>owed := dminus (owed t) ?x\<rparr>) ?m =
           tallyAt k (\<lambda>t. t\<lparr>owed := owed t - ?x\<rparr>) ?m" for k
  proof (rule tallyAt_cong)
    fix t assume "(k, t) \<in> set ?m"
    from tally_le_weight [OF this] w assms(2)
    have "dminus (owed t) ?x = owed t - ?x" by (intro dminus_safe) linarith
    then show "t\<lparr>owed := dminus (owed t) ?x\<rparr> = t\<lparr>owed := owed t - ?x\<rparr>" by simp
  next
    from assms(2) a have "dminus 0 ?x = 0 - ?x" by (intro dminus_safe) linarith
    then show "zeroTally\<lparr>owed := dminus (owed zeroTally) ?x\<rparr> =
               zeroTally\<lparr>owed := owed zeroTally - ?x\<rparr>"
      by (simp add: zeroTally_def)
  qed
  have 4: "tallyWeight (tallyAt k (\<lambda>t. t\<lparr>owing := owing t - ?x\<rparr>) ?m) \<le> tallyWeight ?m + \<bar>?x\<bar>"
    "tallyWeight (tallyAt k (\<lambda>t. t\<lparr>owed := owed t - ?x\<rparr>) ?m) \<le> tallyWeight ?m + \<bar>?x\<bar>" for k
    by (rule weight_tallyAt, simp)+
  have eq: "applySettlement_f64 me st s = applySettlement me st s"
    by (simp add: applySettlement_f64_def applySettlement_def 1 2 3)
  have "within (B + \<bar>?x\<bar>) (applySettlement me st s)"
    using 4 [of "receivedByUserId s"] 4 [of "s_paidByUserId s"] a w
    by (simp add: applySettlement_def within_def) linarith
  with eq show ?thesis by simp
qed

lemma settlements_bridge:
  assumes "within B st" and "B + (\<Sum>s\<leftarrow>ss. \<bar>s_amount s\<bar>) < 2 ^ 53"
  shows "foldl (applySettlement_f64 me) st ss = foldl (applySettlement me) st ss \<and>
         within (B + (\<Sum>s\<leftarrow>ss. \<bar>s_amount s\<bar>)) (foldl (applySettlement me) st ss)"
  using assms
  by (rule foldl_bridge [where P = within and cost = "\<lambda>s. \<bar>s_amount s\<bar>", rotated 2])
     (simp_all add: applySettlement_bridge)

lemma finalLedger_bridge:
  assumes "balanceVolume d me < 2 ^ 53"
  shows "finalLedger_f64 d me = finalLedger d me"
    and "within (balanceVolume d me) (finalLedger d me)"
proof -
  let ?es = "oneToOneExpenses d me" and ?ss = "oneToOneSettlements d me"
  have s0: "0 \<le> (\<Sum>s\<leftarrow>?ss. \<bar>s_amount s\<bar>)" by (rule sum_list_nonneg) auto
  have w0: "within 0 emptyLedger"
    by (simp add: within_def emptyLedger_def tallyWeight_def)
  from assms s0 have "0 + (\<Sum>e\<leftarrow>?es. splitVolume e) < 2 ^ 53"
    by (simp add: balanceVolume_def)
  from expenses_bridge [OF w0 this, of me]
  have e: "foldl (addExpense_f64 me) emptyLedger ?es = foldl (addExpense me) emptyLedger ?es"
    and we: "within (\<Sum>e\<leftarrow>?es. splitVolume e) (foldl (addExpense me) emptyLedger ?es)"
    by simp_all
  from assms have "(\<Sum>e\<leftarrow>?es. splitVolume e) + (\<Sum>s\<leftarrow>?ss. \<bar>s_amount s\<bar>) < 2 ^ 53"
    by (simp add: balanceVolume_def)
  from settlements_bridge [OF we this, of me]
  show "finalLedger_f64 d me = finalLedger d me"
    and "within (balanceVolume d me) (finalLedger d me)"
    by (simp_all add: finalLedger_f64_def finalLedger_def e balanceVolume_def)
qed

lemma net_bridge:
  assumes "within B st" and "B < 2 ^ 53" and "(k, t) \<in> set (balanceByUser st)"
  shows "net_f64 t = net t"
proof -
  from assms(1) tally_le_weight [OF assms(3)] have "\<bar>owed t\<bar> + \<bar>owing t\<bar> \<le> B"
    by (simp add: within_def)
  with assms(2) show ?thesis
    unfolding net_f64_def net_def by (intro dminus_safe) linarith
qed

lemma pushEntry_bridge:
  "\<forall>p \<in> set m. net_f64 (snd p) = net (snd p) \<Longrightarrow>
     foldl (pushEntry_f64 d) acc m = foldl (pushEntry d) acc m"
proof (induction m arbitrary: acc)
  case Nil
  show ?case by simp
next
  case (Cons p m)
  then have "pushEntry_f64 d acc p = pushEntry d acc p"
    by (cases acc; cases p) (simp add: pushEntry_f64_def pushEntry_def)
  with Cons show ?case by simp
qed

lemma userBalances_f64_exact:
  assumes "balanceVolume d me < 2 ^ 53"
  shows "res_youOwe (userBalances_f64 d me) = res_youOwe (userBalances d me)"
    and "res_youAreOwed (userBalances_f64 d me) = res_youAreOwed (userBalances d me)"
    and "totalBalance (userBalances_f64 d me) = totalBalance (userBalances d me)"
    and "youOweList (oweDetails (userBalances_f64 d me)) =
           array_sort byAmountDesc_f64
             (map (entryOf d) (filter (\<lambda>p. net (snd p) < 0) (balanceByUser (finalLedger d me))))"
    and "youAreOwedByList (oweDetails (userBalances_f64 d me)) =
           array_sort byAmountDesc_f64
             (map (entryOf d) (filter (\<lambda>p. net (snd p) > 0) (balanceByUser (finalLedger d me))))"
proof -
  note fl = finalLedger_bridge [OF assms]
  let ?st = "finalLedger d me"
  from fl(2) have "\<bar>youOwe ?st\<bar> + \<bar>youAreOwed ?st\<bar> \<le> balanceVolume d me"
    by (simp add: within_def)
  with assms have t: "dminus (youAreOwed ?st) (youOwe ?st) = youAreOwed ?st - youOwe ?st"
    by (intro dminus_safe) linarith
  have n: "\<forall>p \<in> set (balanceByUser ?st). net_f64 (snd p) = net (snd p)"
  proof
    fix p assume "p \<in> set (balanceByUser ?st)"
    then have "(fst p, snd p) \<in> set (balanceByUser ?st)" by simp
    from net_bridge [OF fl(2) assms this] show "net_f64 (snd p) = net (snd p)" .
  qed
  note pe = pushEntry_bridge [OF n]
  show "res_youOwe (userBalances_f64 d me) = res_youOwe (userBalances d me)"
    and "res_youAreOwed (userBalances_f64 d me) = res_youAreOwed (userBalances d me)"
    and "totalBalance (userBalances_f64 d me) = totalBalance (userBalances d me)"
    by (simp_all add: userBalances_f64_def userBalances_def Let_def fl(1) t)
  show "youOweList (oweDetails (userBalances_f64 d me)) =
           array_sort byAmountDesc_f64
             (map (entryOf d) (filter (\<lambda>p. net (snd p) < 0) (balanceByUser (finalLedger d me))))"
    and "youAreOwedByList (oweDetails (userBalances_f64 d me)) =
           array_sort byAmountDesc_f64
             (map (entryOf d) (filter (\<lambda>p. net (snd p) > 0) (balanceByUser (finalLedger d me))))"
    by (simp_all add: userBalances_f64_def Let_def fl(1) pe foldl_pushEntry)
qed

lemma getUserBalances_f64_Inr:
  "getCurrentUser c = Inr user \<Longrightarrow>
     getUserBalances_f64 c = Inr (userBalances_f64 (db c) (u_id user))"
  by (simp add: getUserBalances_f64_def)

lemma totals_details_f64:
  assumes "balanceVolume d me < 2 ^ 53"
  shows "totalBalance (userBalances_f64 d me) =
     (\<Sum>b\<leftarrow>youAreOwedByList (oweDetails (userBalances_f64 d me)). b_amount b) -
     (\<Sum>b\<leftarrow>youOweList (oweDetails (userBalances_f64 d me)). b_amount b)"
  using totals_details [of d me]
  by (simp add: userBalances_f64_exact [OF assms] youOweList_userBalances
      youAreOwedByList_userBalances sum_list_array_sort)

lemma value_le_weight: "map_of m k = Some v \<Longrightarrow> \<bar>v\<bar> \<le> monthWeight m"
proof (induction m)
  case Nil
  then show ?case by simp
next
  case (Cons p m)
  have "0 \<le> monthWeight m" unfolding monthWeight_def by (rule sum_list_nonneg) auto
  with Cons show ?case by (cases p) (auto simp: monthWeight_def split: if_splits)
qed

lemma weight_setKey:
  "monthWeight (setKey k v m) =
     monthWeight m - \<bar>case map_of m k of None \<Rightarrow> 0 | Some v' \<Rightarrow> v'\<bar> + \<bar>v\<bar>"
  unfolding monthWeight_def by (induction m) auto

lemma addShare_bridge:
  assumes "\<bar>t\<bar> \<le> B" and "B + splitVolume e < 2 ^ 53"
  shows "addShare_f64 me t e = addShare me t e \<and> \<bar>addShare me t e\<bar> \<le> B + splitVolume e"
proof (cases "find (\<lambda>s. userId s = me) (splits e)")
  case None
  with assms splitVolume_nonneg [of e] show ?thesis
    by (simp add: addShare_f64_def addShare_def)
next
  case (Some s)
  then have "s \<in> set (splits e)" by (auto simp: find_Some_iff)
  from amount_le_volume [OF this] have le: "\<bar>amount s\<bar> \<le> splitVolume e" .
  with assms have "dplus t (amount s) = t + amount s" by (intro dplus_safe) linarith
  with Some le assms show ?thesis
    by (simp add: addShare_f64_def addShare_def)
qed

lemma addToMonth_bridge:
  assumes "monthWeight m \<le> B" and "B + splitVolume e < 2 ^ 53"
  shows "addToMonth_f64 me m e = addToMonth me m e \<and>
         monthWeight (addToMonth me m e) \<le> B + splitVolume e"
proof (cases "find (\<lambda>s. userId s = me) (splits e)")
  case None
  with assms splitVolume_nonneg [of e] show ?thesis
    by (simp add: addToMonth_f64_def addToMonth_def)
next
  case (Some s)
  then have "s \<in> set (splits e)" by (auto simp: find_Some_iff)
  from amount_le_volume [OF this] have le: "\<bar>amount s\<bar> \<le> splitVolume e" .
  define k where "k = firstOfMonth (YearFromTime (date e)) (MonthFromTime (date e))"
  define old where "old = (case map_of m k of None \<Rightarrow> 0 | Some v \<Rightarrow> v)"
  have o: "\<bar>old\<bar> \<le> monthWeight m"
  proof (cases "map_of m k")
    case None
    have "0 \<le> monthWeight m" unfolding monthWeight_def by (rule sum_list_nonneg) auto
    with None show ?thesis by (simp add: old_def)
  next
    case (Some v)
    with value_le_weight [OF Some] show ?thesis by (simp add: old_def)
  qed
  with le assms have d: "dplus old (amount s) = old + amount s"
    by (intro dplus_safe) linarith
  have "monthWeight (setKey k (old + amount s) m) = monthWeight m - \<bar>old\<bar> + \<bar>old + amount s\<bar>"
    by (simp add: weight_setKey old_def)
  with le assms have "monthWeight (setKey k (old + amount s) m) \<le> B + splitVolume e"
    by linarith
  with d Some show ?thesis
    by (simp add: addToMonth_f64_def addToMonth_def Let_def k_def [symmetric] old_def [symmetric])
qed

lemma monthWeight_initMonths: "monthWeight (initMonths y) = 0"
proof -
  have "list_all (\<lambda>p. snd p = (0::int)) m \<Longrightarrow> monthWeight m = 0" for m
    unfolding monthWeight_def by (induction m) auto
  moreover have "list_all (\<lambda>p. snd p = (0::int)) (initMonths y)"
    unfolding initMonths_def by (rule zeros_foldl_setKey) simp
  ultimately show ?thesis by blast
qed

lemma spending_bridge:
  assumes "spendingVolume d time me < 2 ^ 53"
  shows "totalSpent_f64 d time me = totalSpent d time me"
    and "(\<Sum>x\<leftarrow>monthlySpending_f64 d time me. total x) = totalSpent d time me"
proof -
  let ?es = "userExpensesSince d me (firstOfMonth (YearFromTime time) 0)"
  from assms have v: "0 + (\<Sum>e\<leftarrow>?es. splitVolume e) < 2 ^ 53"
    by (simp add: spendingVolume_def)
  have "\<bar>0::int\<bar> \<le> 0" by simp
  from foldl_bridge [where P = "\<lambda>B t. \<bar>t\<bar> \<le> B" and cost = splitVolume
      and f' = "addShare_f64 me" and f = "addShare me", OF _ _ this v]
  have "foldl (addShare_f64 me) 0 ?es = foldl (addShare me) 0 ?es"
    by (simp add: addShare_bridge splitVolume_nonneg)
  then show "totalSpent_f64 d time me = totalSpent d time me"
    by (simp add: totalSpent_f64_def totalSpent_def Let_def)
  have "monthWeight (initMonths (YearFromTime time)) \<le> 0"
    by (simp add: monthWeight_initMonths)
  from foldl_bridge [where P = "\<lambda>B m. monthWeight m \<le> B" and cost = splitVolume
      and f' = "addToMonth_f64 me" and f = "addToMonth me", OF _ _ this v]
  have "foldl (addToMonth_f64 me) (initMonths (YearFromTime time)) ?es =
        foldl (addToMonth me) (initMonths (YearFromTime time)) ?es"
    by (simp add: addToMonth_bridge splitVolume_nonneg)
  then show "(\<Sum>x\<leftarrow>monthlySpending_f64 d time me. total x) = totalSpent d time me"
    by (simp add: monthlySpending_f64_def totalSpent_def Let_def sum_list_array_sort
      total_of_entries sum_months sum_initMonths del: map_map)
qed

section \<open>The claims about getUserBalances\<close>

text \<open>
  C9, as amended. Totals and details agree where no addition rounds. When the absolute
  amounts of the splits of the subject's 1-to-1 expenses and of the subject's settlements
  without a group sum to less than \<open>2 ^ 53\<close>, then in the result of
  \<open>getUserBalances\<close>, computed in double precision, \<open>youAreOwed\<close> is the sum of the
  \<open>owed\<close> tallies of the counterparties, \<open>youOwe\<close> is the sum of their \<open>owing\<close>
  tallies, and \<open>totalBalance\<close> is the sum of the amounts in the \<open>youAreOwedBy\<close> list
  minus the sum of the amounts in the \<open>youOwe\<close> list.
\<close>

theorem exact_totals_match_details:
  assumes "getCurrentUser c = Inr user"
    and "balanceVolume (db c) (u_id user) < 2 ^ 53"
  shows "\<exists>r. getUserBalances_f64 c = Inr r \<and>
           res_youAreOwed r =
             (\<Sum>p\<leftarrow>balanceByUser (finalLedger_f64 (db c) (u_id user)). owed (snd p)) \<and>
           res_youOwe r =
             (\<Sum>p\<leftarrow>balanceByUser (finalLedger_f64 (db c) (u_id user)). owing (snd p)) \<and>
           totalBalance r =
             (\<Sum>b\<leftarrow>youAreOwedByList (oweDetails r). b_amount b) -
             (\<Sum>b\<leftarrow>youOweList (oweDetails r). b_amount b)"
proof -
  let ?d = "db c" and ?me = "u_id user"
  let ?r = "userBalances_f64 ?d ?me"
  note ex = userBalances_f64_exact [OF assms(2)]
  have "getUserBalances_f64 c = Inr ?r"
    using assms(1) by (rule getUserBalances_f64_Inr)
  moreover have
    "res_youAreOwed ?r = (\<Sum>p\<leftarrow>balanceByUser (finalLedger_f64 ?d ?me). owed (snd p))"
    and "res_youOwe ?r = (\<Sum>p\<leftarrow>balanceByUser (finalLedger_f64 ?d ?me). owing (snd p))"
    using tallySums_finalLedger [of ?d ?me]
    by (simp_all add: ex finalLedger_bridge(1) [OF assms(2)] totals_userBalances tallySums_def)
  ultimately show ?thesis
    using totals_details_f64 [OF assms(2)] by blast
qed

theorem exact_totals_match_details_witness:
  "getCurrentUser demo = Inr alice \<and> balanceVolume (db demo) (u_id alice) = 220 \<and>
   (\<exists>r. getUserBalances_f64 demo = Inr r \<and> res_youAreOwed r = 40 \<and> res_youOwe r = 40 \<and>
        totalBalance r = 0 \<and>
        (\<Sum>b\<leftarrow>youAreOwedByList (oweDetails r). b_amount b) = 20 \<and>
        (\<Sum>b\<leftarrow>youOweList (oweDetails r). b_amount b) = 20)"
proof -
  have v: "balanceVolume (db demo) (u_id alice) = 220"
    by (simp add: demo_ids) code_simp
  then have b: "balanceVolume (db demo) (u_id alice) < 2 ^ 53" by simp
  have e: "userBalances_f64 demo_db ''u1'' = userBalances demo_db ''u1''"
    by code_simp
  from exact_totals_match_details [OF demo_user b] obtain r where
    r: "getUserBalances_f64 demo = Inr r" by blast
  then have "r = userBalances demo_db ''u1''"
    by (simp add: getUserBalances_f64_Inr [OF demo_user] demo_ids e)
  with r demo_user v show ?thesis by (simp add: demo_balances)
qed

text \<open>
  C9 as stated fails. Alice paid three expenses: Bob owes \<open>2 ^ 53\<close>, Carol owes 1 and
  again 1. The running total \<open>youAreOwed\<close> rounds each addition of 1 away and stays
  at \<open>2 ^ 53\<close>, and so does \<open>totalBalance\<close>; Carol's own tally adds 1 and 1 exactly,
  so the tallies, and the amounts of the \<open>youAreOwedBy\<close> list, sum to \<open>2 ^ 53 + 2\<close>.
\<close>

theorem rounded_totals_counterexample:
  "getUserBalances_f64 vast =
     Inr \<lparr>res_youOwe = 0, res_youAreOwed = 9007199254740992,
          totalBalance = 9007199254740992,
          oweDetails =
            \<lparr>youOweList = [],
             youAreOwedByList =
               [\<lparr>b_userId = ''u2'', b_name = ''bob'', b_imageUrl = Some ''bob.png'',
                 b_amount = 9007199254740992\<rparr>,
                \<lparr>b_userId = ''u3'', b_name = ''carol'', b_imageUrl = None,
                 b_amount = 2\<rparr>]\<rparr>\<rparr> \<and>
   balanceByUser (finalLedger_f64 (db vast) ''u1'') =
     [(''u2'', \<lparr>owed = 9007199254740992, owing = 0\<rparr>), (''u3'', \<lparr>owed = 2, owing = 0\<rparr>)] \<and>
   9007199254740992 + 2 - 0 = (9007199254740994 :: int)"
  by code_simp

text \<open>
  C5. Net sign routing. For every counterparty with a tally in \<open>balanceByUser\<close>: when
  \<open>owed - owing\<close> is positive the counterparty is in the \<open>youAreOwedBy\<close> list with
  that amount, and not in the \<open>youOwe\<close> list; when it is negative the counterparty is
  in the \<open>youOwe\<close> list with its absolute value, and not in the \<open>youAreOwedBy\<close> list;
  when it is zero the counterparty is in neither list.
\<close>

theorem net_sign_routing:
  assumes "getCurrentUser c = Inr user"
    and "(uid, t) \<in> set (balanceByUser (finalLedger (db c) (u_id user)))"
  shows "\<exists>r. getUserBalances c = Inr r \<and>
           (owed t - owing t > 0 \<longrightarrow>
              (\<exists>b \<in> set (youAreOwedByList (oweDetails r)).
                 b_userId b = uid \<and> b_amount b = owed t - owing t) \<and>
              uid \<notin> b_userId ` set (youOweList (oweDetails r))) \<and>
           (owed t - owing t < 0 \<longrightarrow>
              (\<exists>b \<in> set (youOweList (oweDetails r)).
                 b_userId b = uid \<and> b_amount b = \<bar>owed t - owing t\<bar>) \<and>
              uid \<notin> b_userId ` set (youAreOwedByList (oweDetails r))) \<and>
           (owed t - owing t = 0 \<longrightarrow>
              uid \<notin> b_userId ` set (youAreOwedByList (oweDetails r)) \<and>
              uid \<notin> b_userId ` set (youOweList (oweDetails r)))"
proof -
  let ?r = "userBalances (db c) (u_id user)"
  note rt = routing [OF assms(2)]
  have n: "owed t - owing t = net t" by (simp add: net_def)
  have "getUserBalances c = Inr ?r"
    using assms(1) by (rule getUserBalances_Inr)
  moreover have "0 < net t \<Longrightarrow>
      \<exists>b \<in> set (youAreOwedByList (oweDetails ?r)). b_userId b = uid \<and> b_amount b = net t"
    using rt(1) by (intro bexI [of _ "entryOf (db c) (uid, t)"]) simp_all
  moreover have "net t < 0 \<Longrightarrow>
      \<exists>b \<in> set (youOweList (oweDetails ?r)). b_userId b = uid \<and> b_amount b = \<bar>net t\<bar>"
    using rt(2) by (intro bexI [of _ "entryOf (db c) (uid, t)"]) simp_all
  ultimately show ?thesis
    unfolding n using rt(3) rt(4) by (intro exI [of _ ?r]) simp
qed

theorem net_sign_routing_witness:
  "getCurrentUser demo = Inr alice \<and>
   set (balanceByUser (finalLedger (db demo) (u_id alice))) =
     {(''u2'', \<lparr>owed = 20, owing = 40\<rparr>), (''u9'', \<lparr>owed = 20, owing = 0\<rparr>),
      (''u3'', \<lparr>owed = 0, owing = 0\<rparr>)} \<and>
   (\<exists>r. getUserBalances demo = Inr r \<and>
       (\<exists>b \<in> set (youAreOwedByList (oweDetails r)). b_userId b = ''u9'' \<and> b_amount b = 20) \<and>
       ''u9'' \<notin> b_userId ` set (youOweList (oweDetails r)) \<and>
       (\<exists>b \<in> set (youOweList (oweDetails r)). b_userId b = ''u2'' \<and> b_amount b = 20) \<and>
       ''u2'' \<notin> b_userId ` set (youAreOwedByList (oweDetails r)) \<and>
       ''u3'' \<notin> b_userId ` set (youAreOwedByList (oweDetails r)) \<and>
       ''u3'' \<notin> b_userId ` set (youOweList (oweDetails r)))"
proof -
  have m: "balanceByUser (finalLedger (db demo) (u_id alice)) =
      [(''u2'', \<lparr>owed = 20, owing = 40\<rparr>), (''u9'', \<lparr>owed = 20, owing = 0\<rparr>),
       (''u3'', \<lparr>owed = 0, owing = 0\<rparr>)]"
    by (simp add: demo_ids demo_ledger)
  have r: "getUserBalances demo = Inr (userBalances demo_db ''u1'')"
    by (simp add: getUserBalances_Inr [OF demo_user] demo_ids)
  have "(''u9'', \<lparr>owed = 20, owing = 0\<rparr>) \<in> set (balanceByUser (finalLedger (db demo) (u_id alice)))"
    and "(''u2'', \<lparr>owed = 20, owing = 40\<rparr>) \<in> set (balanceByUser (finalLedger (db demo) (u_id alice)))"
    and "(''u3'', \<lparr>owed = 0, owing = 0\<rparr>) \<in> set (balanceByUser (finalLedger (db demo) (u_id alice)))"
    by (simp_all add: m)
  from net_sign_routing [OF demo_user this(1)] net_sign_routing [OF demo_user this(2)]
    net_sign_routing [OF demo_user this(3)]
  show ?thesis
    unfolding r by (simp add: demo_user m)
qed

text \<open>
  C4. Settlement monotonicity. Adding one settlement without a group, paid by the subject,
  lowers the \<open>youOwe\<close> total of the subject by exactly the amount of the settlement,
  whatever the other records are.
\<close>

theorem settlement_lowers_youOwe:
  assumes "getCurrentUser c = Inr user"
    and "s_groupId s = None"
    and "s_paidByUserId s = u_id user"
  shows "\<exists>r r'. getUserBalances c = Inr r \<and>
           getUserBalances (insertSettlement s c) = Inr r' \<and>
           res_youOwe r' = res_youOwe r - s_amount s"
proof -
  have "getCurrentUser (insertSettlement s c) = Inr user"
    using assms(1) by simp
  then have "getUserBalances (insertSettlement s c) =
      Inr (userBalances (db (insertSettlement s c)) (u_id user))"
    by (rule getUserBalances_Inr)
  moreover have "getUserBalances c = Inr (userBalances (db c) (u_id user))"
    using assms(1) by (rule getUserBalances_Inr)
  moreover have "youOwe (finalLedger (db (insertSettlement s c)) (u_id user)) =
      youOwe (finalLedger (db c) (u_id user)) - s_amount s"
    using assms(2,3) by (simp add: finalLedger_insertSettlement applySettlement_def)
  ultimately show ?thesis by (simp add: totals_userBalances)
qed

theorem settlement_lowers_youOwe_witness:
  "getCurrentUser demo = Inr alice \<and> s_groupId topup = None \<and>
   s_paidByUserId topup = u_id alice \<and> s_amount topup = 7 \<and>
   (\<exists>r r'. getUserBalances demo = Inr r \<and>
        getUserBalances (insertSettlement topup demo) = Inr r' \<and>
        res_youOwe r = 40 \<and> res_youOwe r' = 33)"
proof -
  have h: "s_groupId topup = None" "s_paidByUserId topup = u_id alice" "s_amount topup = 7"
    by (simp_all add: topup_def alice_def)
  have r: "getUserBalances demo = Inr (userBalances demo_db ''u1'')"
    by (simp add: getUserBalances_Inr [OF demo_user] demo_ids)
  from settlement_lowers_youOwe [OF demo_user h(1,2)] show ?thesis
    unfolding r by (simp add: h demo_user demo_balances)
qed






text \<open>
  C1, as amended. Conservation between two users. Let all expenses and settlements be
  without a group and involve only the users \<open>A\<close> and \<open>B\<close>; let every expense name a
  user in at most one split, and every settlement be paid by one of the two and received
  by the other. Then the \<open>totalBalance\<close> of \<open>getUserBalances\<close> for \<open>A\<close> is the
  negation of the \<open>totalBalance\<close> for \<open>B\<close>.
\<close>

theorem conservation_two_users:
  assumes "getCurrentUser cA = Inr a" and "getCurrentUser cB = Inr b"
    and "db cB = db cA" and "u_id a \<noteq> u_id b"
    and "\<forall>e \<in> set (tbl_expenses (db cA)).
           groupId e = None \<and> paidByUserId e \<in> {u_id a, u_id b} \<and>
           userId ` set (splits e) \<subseteq> {u_id a, u_id b} \<and>
           distinct (map userId (splits e))"
    and "\<forall>s \<in> set (tbl_settlements (db cA)).
           s_groupId s = None \<and>
           (s_paidByUserId s = u_id a \<and> receivedByUserId s = u_id b \<or>
            s_paidByUserId s = u_id b \<and> receivedByUserId s = u_id a)"
  shows "\<exists>ra rb. getUserBalances cA = Inr ra \<and> getUserBalances cB = Inr rb \<and>
           totalBalance ra = - totalBalance rb"
proof -
  have "getUserBalances cA = Inr (userBalances (db cA) (u_id a))"
    using assms(1) by (rule getUserBalances_Inr)
  moreover have "getUserBalances cB = Inr (userBalances (db cA) (u_id b))"
    using getUserBalances_Inr [OF assms(2)] assms(3) by simp
  moreover have "totalBalance (userBalances (db cA) (u_id a)) =
      - totalBalance (userBalances (db cA) (u_id b))"
    using assms(4-6) by (rule conservation)
  ultimately show ?thesis by simp
qed

theorem conservation_two_users_witness:
  "getCurrentUser pairA = Inr alice \<and> getCurrentUser pairB = Inr bob \<and>
   db pairB = db pairA \<and> u_id alice \<noteq> u_id bob \<and>
   tbl_expenses (db pairA) = [meal, taxi] \<and> tbl_settlements (db pairA) = [refund] \<and>
   (\<exists>ra rb. getUserBalances pairA = Inr ra \<and> getUserBalances pairB = Inr rb \<and>
      totalBalance ra = - 20 \<and> totalBalance rb = 20)"
proof -
  have d: "db pairB = db pairA" "u_id alice \<noteq> u_id bob"
    "tbl_expenses (db pairA) = [meal, taxi]" "tbl_settlements (db pairA) = [refund]"
    by (simp_all add: pairA_def pairB_def pair_db_def alice_def bob_def)
  have e: "\<forall>e \<in> set (tbl_expenses (db pairA)).
           groupId e = None \<and> paidByUserId e \<in> {u_id alice, u_id bob} \<and>
           userId ` set (splits e) \<subseteq> {u_id alice, u_id bob} \<and>
           distinct (map userId (splits e))"
    by (simp add: d) (simp add: meal_def taxi_def alice_def bob_def)
  have s: "\<forall>s \<in> set (tbl_settlements (db pairA)).
           s_groupId s = None \<and>
           (s_paidByUserId s = u_id alice \<and> receivedByUserId s = u_id bob \<or>
            s_paidByUserId s = u_id bob \<and> receivedByUserId s = u_id alice)"
    by (simp add: d) (simp add: refund_def alice_def bob_def)
  have "totalBalance (userBalances (db pairA) (u_id alice)) = - 20"
    by (simp add: totals_userBalances pairA_def pair_db_def alice_def bob_def balance_defs
        meal_def taxi_def refund_def)
  moreover from conservation_two_users [OF pair_users d(1,2) e s] obtain ra rb where
    "getUserBalances pairA = Inr ra" "getUserBalances pairB = Inr rb"
    "totalBalance ra = - totalBalance rb" by blast
  ultimately show ?thesis
    using pair_users d by (simp add: getUserBalances_Inr [OF pair_users(1)])
qed

text \<open>
  C1 as stated fails. An expense that Alice paid names Bob in two unpaid splits, 100 and
  50: Alice is owed both, 150, while Bob owes the first split he is found in, 100. And
  beside an expense of 30 that Bob owes Alice, a settlement of 10 that Alice paid to
  herself counts for Alice, 40, and not for Bob, who owes 30.
\<close>

theorem conservation_counterexample:
  "getUserBalances dupA =
     Inr \<lparr>res_youOwe = 0, res_youAreOwed = 150, totalBalance = 150,
          oweDetails =
            \<lparr>youOweList = [],
             youAreOwedByList =
               [\<lparr>b_userId = ''u2'', b_name = ''bob'', b_imageUrl = Some ''bob.png'',
                 b_amount = 150\<rparr>]\<rparr>\<rparr> \<and>
   getUserBalances dupB =
     Inr \<lparr>res_youOwe = 100, res_youAreOwed = 0, totalBalance = - 100,
          oweDetails =
            \<lparr>youOweList =
               [\<lparr>b_userId = ''u1'', b_name = ''alice'', b_imageUrl = None, b_amount = 100\<rparr>],
             youAreOwedByList = []\<rparr>\<rparr> \<and>
   getUserBalances selfA =
     Inr \<lparr>res_youOwe = - 10, res_youAreOwed = 30, totalBalance = 40,
          oweDetails =
            \<lparr>youOweList = [],
             youAreOwedByList =
               [\<lparr>b_userId = ''u2'', b_name = ''bob'', b_imageUrl = Some ''bob.png'',
                 b_amount = 30\<rparr>,
                \<lparr>b_userId = ''u1'', b_name = ''alice'', b_imageUrl = None, b_amount = 10\<rparr>]\<rparr>\<rparr> \<and>
   getUserBalances selfB =
     Inr \<lparr>res_youOwe = 30, res_youAreOwed = 0, totalBalance = - 30,
          oweDetails =
            \<lparr>youOweList =
               [\<lparr>b_userId = ''u1'', b_name = ''alice'', b_imageUrl = None, b_amount = 30\<rparr>],
             youAreOwedByList = []\<rparr>\<rparr>"
  by code_simp

section \<open>The claim about getUserGroups\<close>




section \<open>The claims about getTotalSpent and getMonthlySpending\<close>

text \<open>
  C10, as amended. Year and months agree where no addition rounds. When the absolute
  amounts of the splits of the subject's expenses dated from the start of the year sum to
  less than \<open>2 ^ 53\<close>, then on the same records and at the same time the number that
  \<open>getTotalSpent\<close> returns is the sum of the \<open>total\<close> fields of the entries that
  \<open>getMonthlySpending\<close> returns, both computed in double precision.
\<close>

theorem exact_year_total_is_sum_of_months:
  assumes "getCurrentUser c = Inr user"
    and "spendingVolume (db c) (now c) (u_id user) < 2 ^ 53"
  shows "\<exists>spent months.
           getTotalSpent_f64 c = Inr spent \<and> getMonthlySpending_f64 c = Inr months \<and>
           spent = (\<Sum>m\<leftarrow>months. total m)"
  using assms(1) spending_bridge [OF assms(2)]
  by (simp add: getTotalSpent_f64_def getMonthlySpending_f64_def)

theorem exact_year_total_is_sum_of_months_witness:
  "getCurrentUser demo = Inr alice \<and> spendingVolume (db demo) (now demo) (u_id alice) = 285 \<and>
   (\<exists>spent months.
      getTotalSpent_f64 demo = Inr spent \<and> getMonthlySpending_f64 demo = Inr months \<and>
      spent = 120 \<and> (\<Sum>m\<leftarrow>months. total m) = 120 \<and> length months = 12)"
proof -
  have v: "spendingVolume (db demo) (now demo) (u_id alice) = 285"
    by (simp add: demo_ids) code_simp
  then have b: "spendingVolume (db demo) (now demo) (u_id alice) < 2 ^ 53" by simp
  have t: "totalSpent_f64 demo_db 1793620000000 ''u1'' = 120" by code_simp
  have l: "length (monthlySpending_f64 demo_db 1793620000000 ''u1'') = 12" by code_simp
  from exact_year_total_is_sum_of_months [OF demo_user b] obtain spent months where
    "getTotalSpent_f64 demo = Inr spent" "getMonthlySpending_f64 demo = Inr months"
    "spent = (\<Sum>m\<leftarrow>months. total m)" by blast
  then show ?thesis
    using demo_user v t l
    by (simp add: getTotalSpent_f64_def getMonthlySpending_f64_def demo_ids)
qed

text \<open>
  C10 as stated fails. With Alice's shares \<open>2 ^ 53\<close> in January and 1 twice in
  February, the year total rounds each addition of 1 away and is \<open>2 ^ 53\<close>, while the
  February bucket adds 1 and 1 exactly and the month totals sum to \<open>2 ^ 53 + 2\<close>.
\<close>

theorem rounded_year_total_counterexample:
  "getTotalSpent_f64 costly = Inr 9007199254740992 \<and>
   getMonthlySpending_f64 costly =
     Inr [\<lparr>month = 1767225600000, total = 9007199254740992\<rparr>,
          \<lparr>month = 1769904000000, total = 2\<rparr>, \<lparr>month = 1772323200000, total = 0\<rparr>,
          \<lparr>month = 1775001600000, total = 0\<rparr>, \<lparr>month = 1777593600000, total = 0\<rparr>,
          \<lparr>month = 1780272000000, total = 0\<rparr>, \<lparr>month = 1782864000000, total = 0\<rparr>,
          \<lparr>month = 1785542400000, total = 0\<rparr>, \<lparr>month = 1788220800000, total = 0\<rparr>,
          \<lparr>month = 1790812800000, total = 0\<rparr>, \<lparr>month = 1793491200000, total = 0\<rparr>,
          \<lparr>month = 1796083200000, total = 0\<rparr>]"
  by code_simp

text \<open>
  C3. Month coverage asks for exactly 12 entries, one for each month of the current year.
  The query has no upper bound on the date: on 2 November 2026, with one expense of the
  subject dated 15 January 2027, \<open>getMonthlySpending\<close> returns 13 entries, the twelve
  months of 2026 and January 2027.
\<close>

theorem thirteen_months:
  "YearFromTime (now ahead) = 2026 \<and>
   firstOfMonth (YearFromTime (now ahead)) 0 \<le> date booking \<and>
   YearFromTime (date booking) = 2027 \<and> MonthFromTime (date booking) = 0 \<and>
   getMonthlySpending ahead =
     Inr [\<lparr>month = 1767225600000, total = 0\<rparr>, \<lparr>month = 1769904000000, total = 0\<rparr>,
          \<lparr>month = 1772323200000, total = 0\<rparr>, \<lparr>month = 1775001600000, total = 0\<rparr>,
          \<lparr>month = 1777593600000, total = 0\<rparr>, \<lparr>month = 1780272000000, total = 0\<rparr>,
          \<lparr>month = 1782864000000, total = 0\<rparr>, \<lparr>month = 1785542400000, total = 0\<rparr>,
          \<lparr>month = 1788220800000, total = 0\<rparr>, \<lparr>month = 1790812800000, total = 0\<rparr>,
          \<lparr>month = 1793491200000, total = 0\<rparr>, \<lparr>month = 1796083200000, total = 0\<rparr>,
          \<lparr>month = 1798761600000, total = 25\<rparr>]"
  by code_simp

section \<open>The claim about getAllContacts\<close>

text \<open>
  C8. Contact ordering asks for the \<open>users\<close> list in ascending order of the names, also
  when a contact id belongs to a deleted user. With the contacts Zoe, a deleted user and
  Victor, gathered in this order, \<open>getAllContacts\<close> returns Zoe before Victor: the null
  entry compares equal to Zoe, Victor compares above the null entry, and the sort leaves
  the array as it is. Without the deleted user the same contacts come out as Victor, Zoe.
\<close>

theorem users_not_sorted:
  "getAllContacts trio =
     Inr \<lparr>users =
            [\<lparr>cu_id = ''u5'', cu_name = ''zoe'', cu_email = ''zoe@example.org'',
              cu_imageUrl = None, cu_type = ''user''\<rparr>,
             \<lparr>cu_id = ''u6'', cu_name = ''victor'', cu_email = ''victor@example.org'',
              cu_imageUrl = None, cu_type = ''user''\<rparr>],
          groups = []\<rparr> \<and>
   localeCompare ''zoe'' ''victor'' = 1 \<and>
   getAllContacts duo =
     Inr \<lparr>users =
            [\<lparr>cu_id = ''u6'', cu_name = ''victor'', cu_email = ''victor@example.org'',
              cu_imageUrl = None, cu_type = ''user''\<rparr>,
             \<lparr>cu_id = ''u5'', cu_name = ''zoe'', cu_email = ''zoe@example.org'',
              cu_imageUrl = None, cu_type = ''user''\<rparr>],
          groups = []\<rparr>"
  by code_simp

end
